theory Spec2Isabelle
  imports Main "HOL-Library.Word"
begin

section \<open>Images\<close>

text \<open>
  The program works on Pillow images. An image has a mode and a rectangle of pixels; a
  channel is one byte. The modes modelled are \<open>L\<close> (one grey channel), \<open>RGB\<close> and
  \<open>RGBA\<close>. A pixel rectangle is the list of its rows, top to bottom, each row the list
  of its pixels, left to right; \<open>rect\<close> says that all rows have the same length.
\<close>

type_synonym byte = "8 word"
type_synonym rgb = "byte \<times> byte \<times> byte"
type_synonym rgba = "byte \<times> byte \<times> byte \<times> byte"
type_synonym 'p grid = "'p list list"
type_synonym box = "nat \<times> nat \<times> nat \<times> nat"

datatype image = ImL "byte grid" | ImRGB "rgb grid" | ImRGBA "rgba grid"

datatype error = IndexError | EncodeError | ClipboardError

definition height :: "'p grid \<Rightarrow> nat" where
  "height g = length g"

definition width :: "'p grid \<Rightarrow> nat" where
  "width g = (case g of [] \<Rightarrow> 0 | r # _ \<Rightarrow> length r)"

definition rect :: "'p grid \<Rightarrow> bool" where
  "rect g = (\<forall>r \<in> set g. length r = width g)"

fun wf_image :: "image \<Rightarrow> bool" where
  "wf_image (ImL g) = rect g"
| "wf_image (ImRGB g) = rect g"
| "wf_image (ImRGBA g) = rect g"

text \<open>\<open>img.size\<close>\<close>

definition size_of :: "'p grid \<Rightarrow> nat \<times> nat" where
  "size_of g = (width g, height g)"

fun image_size :: "image \<Rightarrow> nat \<times> nat" where
  "image_size (ImL g) = size_of g"
| "image_size (ImRGB g) = size_of g"
| "image_size (ImRGBA g) = size_of g"

subsection \<open>Pillow operations used by the program\<close>

text \<open>\<open>img.convert("RGBA")\<close>: grey is copied to the three colour channels, a missing
  alpha channel is filled with 255.\<close>

fun convert_RGBA :: "image \<Rightarrow> rgba grid" where
  "convert_RGBA (ImL g) = map (map (\<lambda>v. (v, v, v, 255))) g"
| "convert_RGBA (ImRGB g) = map (map (\<lambda>(r, g, b). (r, g, b, 255))) g"
| "convert_RGBA (ImRGBA g) = g"

text \<open>\<open>img.convert("RGB")\<close>: the alpha channel is dropped.\<close>

definition drop_alpha :: "rgba \<Rightarrow> rgb" where
  "drop_alpha p = (case p of (r, g, b, a) \<Rightarrow> (r, g, b))"

fun convert_RGB :: "image \<Rightarrow> rgb grid" where
  "convert_RGB (ImL g) = map (map (\<lambda>v. (v, v, v))) g"
| "convert_RGB (ImRGB g) = g"
| "convert_RGB (ImRGBA g) = map (map drop_alpha) g"

text \<open>\<open>img.getpixel((x, y))\<close> raises \<open>IndexError\<close> outside the image.\<close>

definition getpixel :: "'p grid \<Rightarrow> nat \<times> nat \<Rightarrow> error + 'p" where
  "getpixel g xy = (case xy of (x, y) \<Rightarrow>
     if y < length g \<and> x < length (g ! y) then Inr (g ! y ! x) else Inl IndexError)"

text \<open>\<open>Image.new(mode, size, color)\<close>\<close>

definition new_image :: "nat \<times> nat \<Rightarrow> 'p \<Rightarrow> 'p grid" where
  "new_image sz c = (case sz of (w, h) \<Rightarrow> replicate h (replicate w c))"

text \<open>\<open>ImageChops.difference\<close>: the absolute difference, channel by channel, alpha
  included.\<close>

definition chan_diff :: "byte \<Rightarrow> byte \<Rightarrow> byte" where
  "chan_diff a b = (if a \<le> b then b - a else a - b)"

definition pixel_difference :: "rgba \<Rightarrow> rgba \<Rightarrow> rgba" where
  "pixel_difference p q = (case p of (r1, g1, b1, a1) \<Rightarrow> case q of (r2, g2, b2, a2) \<Rightarrow>
     (chan_diff r1 r2, chan_diff g1 g2, chan_diff b1 b2, chan_diff a1 a2))"

definition difference :: "rgba grid \<Rightarrow> rgba grid \<Rightarrow> rgba grid" where
  "difference a b = map2 (map2 pixel_difference) a b"

text \<open>\<open>convert("L")\<close> of an \<open>RGBA\<close> image: the ITU-R 601-2 luma of the colour
  channels in 16-bit fixed point, \<open>(19595 R + 38470 G + 7471 B + 0x8000) >> 16\<close>; the
  alpha channel is not read.\<close>

definition rgb2l :: "rgba \<Rightarrow> byte" where
  "rgb2l p = (case p of (r, g, b, a) \<Rightarrow>
     of_nat ((unat r * 19595 + unat g * 38470 + unat b * 7471 + 32768) div 65536))"

definition convert_L :: "rgba grid \<Rightarrow> byte grid" where
  "convert_L g = map (map rgb2l) g"

text \<open>\<open>img.point(lut)\<close> on an \<open>L\<close> image: each value indexes the table.\<close>

definition point :: "byte list \<Rightarrow> byte grid \<Rightarrow> byte grid" where
  "point lut g = map (map (\<lambda>v. lut ! unat v)) g"

text \<open>\<open>img.getbbox()\<close>: the bounding box \<open>(left, upper, right, lower)\<close> of the
  non-zero pixels, right and lower exclusive; \<open>None\<close> when every pixel is zero.\<close>

definition nonzero_at :: "byte grid \<Rightarrow> nat \<Rightarrow> nat \<Rightarrow> bool" where
  "nonzero_at g x y = (y < length g \<and> x < length (g ! y) \<and> g ! y ! x \<noteq> 0)"

definition nonzero_cols :: "byte grid \<Rightarrow> nat list" where
  "nonzero_cols g = filter (\<lambda>x. \<exists>y \<in> set [0..<length g]. nonzero_at g x y) [0..<width g]"

definition nonzero_rows :: "byte grid \<Rightarrow> nat list" where
  "nonzero_rows g = filter (\<lambda>y. \<exists>x \<in> set [0..<width g]. nonzero_at g x y) [0..<length g]"

definition getbbox :: "byte grid \<Rightarrow> box option" where
  "getbbox g =
     (if nonzero_rows g = [] then None
      else Some (hd (nonzero_cols g), hd (nonzero_rows g),
                 Suc (last (nonzero_cols g)), Suc (last (nonzero_rows g))))"

text \<open>\<open>img.crop(box)\<close> for a box inside the image.\<close>

definition crop :: "'p grid \<Rightarrow> box \<Rightarrow> 'p grid" where
  "crop g bx = (case bx of (l, t, r, b) \<Rightarrow>
     map (\<lambda>row. take (r - l) (drop l row)) (take (b - t) (drop t g)))"

text \<open>\<open>dst.paste(src, (ox, oy), mask)\<close> on an \<open>RGBA\<close> destination with an
  \<open>RGBA\<close> mask (Pillow's \<open>paste_mask_RGBA\<close>): every channel of a covered pixel is
  blended with the alpha \<open>m\<close> of the mask pixel as \<open>DIV255(dst * (255 - m) + src * m)\<close>,
  where \<open>DIV255(a)\<close> is \<open>t = a + 128; ((t >> 8) + t) >> 8\<close>. For the colour channels
  of a destination pixel whose alpha is 0, a non-zero \<open>m\<close> is replaced by 255
  (\<open>255 - (255 - m) * (1 - (255 - dst_alpha) / 255)\<close> in integer arithmetic).\<close>

definition blend8 :: "byte \<Rightarrow> byte \<Rightarrow> byte \<Rightarrow> byte" where
  "blend8 m d s =
     (let t = unat d * (255 - unat m) + unat s * unat m + 128
      in of_nat ((t div 256 + t) div 256))"

definition channel_mask :: "byte \<Rightarrow> byte \<Rightarrow> byte" where
  "channel_mask m dst_alpha = (if m \<noteq> 0 \<and> dst_alpha = 0 then 255 else m)"

definition blend_pixel :: "byte \<Rightarrow> rgba \<Rightarrow> rgba \<Rightarrow> rgba" where
  "blend_pixel m d s = (case d of (r1, g1, b1, a1) \<Rightarrow> case s of (r2, g2, b2, a2) \<Rightarrow>
     (blend8 (channel_mask m a1) r1 r2, blend8 (channel_mask m a1) g1 g2,
      blend8 (channel_mask m a1) b1 b2, blend8 m a1 a2))"

definition alpha_of :: "rgba \<Rightarrow> byte" where
  "alpha_of p = (case p of (r, g, b, a) \<Rightarrow> a)"

definition paste :: "rgba grid \<Rightarrow> rgba grid \<Rightarrow> nat \<times> nat \<Rightarrow> rgba grid \<Rightarrow> rgba grid" where
  "paste dst src off msk = (case off of (ox, oy) \<Rightarrow>
     map (\<lambda>y. map (\<lambda>x.
            if oy \<le> y \<and> y - oy < length src \<and> ox \<le> x \<and> x - ox < length (src ! (y - oy))
            then blend_pixel (alpha_of (msk ! (y - oy) ! (x - ox))) (dst ! y ! x)
                   (src ! (y - oy) ! (x - ox))
            else dst ! y ! x) [0..<length (dst ! y)]) [0..<length dst])"

section \<open>The border normalizer\<close>

text \<open>The lookup table of \<open>trim_and_expand_border_to_content\<close>:
  \<open>[255 if i > tolerance else 0 for i in range(256)]\<close>.\<close>

definition lut_of :: "int \<Rightarrow> byte list" where
  "lut_of tolerance = map (\<lambda>i. if int i > tolerance then 255 else 0) [0..<256]"

text \<open>The mask of the foreground pixels: the difference to an image filled with the
  background colour, reduced to \<open>L\<close> and thresholded by the table.\<close>

definition content_mask :: "rgba grid \<Rightarrow> rgba \<Rightarrow> int \<Rightarrow> byte grid" where
  "content_mask img bg_color tolerance =
     (let bg = new_image (size_of img) bg_color;
          diff = difference img bg;
          diff = convert_L diff;
          lut = lut_of tolerance
      in point lut diff)"

text \<open>The content box: the first half of \<open>trim_and_expand_border_to_content\<close>, up to
  \<open>mask.getbbox()\<close>. It is the bounding box of the mask, with the pixel at \<open>(0, 0)\<close>
  of the converted image as the background colour.\<close>

definition find_content_box :: "image \<Rightarrow> int \<Rightarrow> error + box option" where
  "find_content_box img0 tolerance =
     (let img = convert_RGBA img0 in
      case getpixel img (0, 0) of
        Inl e \<Rightarrow> Inl e
      | Inr bg_color \<Rightarrow> Inr (getbbox (content_mask img bg_color tolerance)))"

text \<open>\<open>trim_and_expand_border_to_content\<close>. The padding is a natural number and the
  tolerance any integer. \<open>img\<close> is rebound to its \<open>RGBA\<close> conversion in the first
  line, and it is this conversion that is returned when there is no box.\<close>

definition trim_and_expand_border_to_content :: "image \<Rightarrow> nat \<Rightarrow> int \<Rightarrow> error + image" where
  "trim_and_expand_border_to_content img0 padding tolerance =
     (let img = convert_RGBA img0 in
      case getpixel img (0, 0) of
        Inl e \<Rightarrow> Inl e
      | Inr bg_color \<Rightarrow>
          (let mask_img = content_mask img bg_color tolerance in
           case getbbox mask_img of
             None \<Rightarrow> Inr (ImRGBA img)
           | Some bbox \<Rightarrow>
               (let object_only = crop img bbox;
                    obj_w = width object_only;
                    obj_h = height object_only;
                    new_width = obj_w + padding * 2;
                    new_height = obj_h + padding * 2;
                    standardized_img = new_image (new_width, new_height) bg_color;
                    standardized_img = paste standardized_img object_only (padding, padding)
                                         object_only
                in Inr (ImRGB (convert_RGB (ImRGBA standardized_img))))))"

text \<open>Two passes of the normalizer, the second on the result of the first.\<close>

definition normalize_twice :: "image \<Rightarrow> nat \<Rightarrow> int \<Rightarrow> error + image" where
  "normalize_twice img padding tolerance =
     (case trim_and_expand_border_to_content img padding tolerance of
        Inl e \<Rightarrow> Inl e
      | Inr out \<Rightarrow> trim_and_expand_border_to_content out padding tolerance)"

subsection \<open>Notions used to state the properties\<close>

text \<open>The scalar the threshold is applied to: the luma of the channel-wise difference
  between a pixel and the background colour.\<close>

definition luma_distance :: "rgba \<Rightarrow> rgba \<Rightarrow> nat" where
  "luma_distance p bg = unat (rgb2l (pixel_difference p bg))"

text \<open>A box is the bounding box of a mask when it is not empty, lies inside the mask,
  contains every non-zero pixel and touches one on each of its four sides.\<close>

definition is_bbox :: "byte grid \<Rightarrow> box \<Rightarrow> bool" where
  "is_bbox m bx = (case bx of (l, t, r, b) \<Rightarrow>
     l < r \<and> t < b \<and> r \<le> width m \<and> b \<le> length m \<and>
     (\<forall>x y. nonzero_at m x y \<longrightarrow> l \<le> x \<and> x < r \<and> t \<le> y \<and> y < b) \<and>
     (\<exists>y. nonzero_at m l y) \<and> (\<exists>y. nonzero_at m (r - 1) y) \<and>
     (\<exists>x. nonzero_at m x t) \<and> (\<exists>x. nonzero_at m x (b - 1)))"

text \<open>The canvas with the object pasted on it, as the normalizer builds it.\<close>

definition framed :: "nat \<Rightarrow> rgba \<Rightarrow> rgba grid \<Rightarrow> rgba grid" where
  "framed p bg obj =
     paste (new_image (width obj + p * 2, height obj + p * 2) bg) obj (p, p) obj"

text \<open>An image is opaque when it has no alpha channel or every alpha value is 255.\<close>

definition opaque_grid :: "rgba grid \<Rightarrow> bool" where
  "opaque_grid g = (\<forall>row \<in> set g. \<forall>p \<in> set row. alpha_of p = 255)"

fun opaque :: "image \<Rightarrow> bool" where
  "opaque (ImL g) = True"
| "opaque (ImRGB g) = True"
| "opaque (ImRGBA g) = opaque_grid g"

text \<open>A \<open>W\<close> by \<open>H\<close> rectangle of colour \<open>F\<close> with a margin of \<open>M\<close> pixels of colour
  \<open>B\<close> on every side.\<close>

definition centered_rect :: "nat \<Rightarrow> nat \<Rightarrow> nat \<Rightarrow> 'p \<Rightarrow> 'p \<Rightarrow> 'p grid" where
  "centered_rect W H M B F =
     map (\<lambda>y. map (\<lambda>x. if M \<le> x \<and> x < M + W \<and> M \<le> y \<and> y < M + H then F else B)
                 [0..<W + 2 * M]) [0..<H + 2 * M]"

section \<open>The change detector\<close>

text \<open>\<open>img.tobytes()\<close> of an \<open>RGB\<close> image: the channels of the pixels, row by row.
  The size of the image is not part of the bytes.\<close>

definition tobytes :: "rgb grid \<Rightarrow> byte list" where
  "tobytes g = concat (map (\<lambda>p. case p of (r, g, b) \<Rightarrow> [r, g, b]) (concat g))"

text \<open>\<open>get_image_hash\<close>: \<open>hashlib.md5(img.convert("RGB").tobytes()).hexdigest()\<close>.
  The digest function is a parameter.\<close>

definition get_image_hash :: "(byte list \<Rightarrow> string) \<Rightarrow> image \<Rightarrow> string" where
  "get_image_hash md5 img = md5 (tobytes (convert_RGB img))"

section \<open>The clipboard bridge\<close>

text \<open>What the clipboard holds: a bitmap, a text, something else (file names, say) or
  nothing. The clipboard is opened and closed around a write.\<close>

datatype clipboard = ClipImage image | ClipText string | ClipOther | ClipEmpty

record clip_state =
  content :: clipboard
  is_open :: bool

text \<open>\<open>ImageGrab.grabclipboard()\<close> gives an image only for a bitmap;
  \<open>pyperclip.paste()\<close> gives the text, and the empty string when there is none.\<close>

fun grabclipboard :: "clipboard \<Rightarrow> image option" where
  "grabclipboard (ClipImage img) = Some img"
| "grabclipboard (ClipText s) = None"
| "grabclipboard ClipOther = None"
| "grabclipboard ClipEmpty = None"

fun pyperclip_paste :: "clipboard \<Rightarrow> string" where
  "pyperclip_paste (ClipText s) = s"
| "pyperclip_paste (ClipImage img) = []"
| "pyperclip_paste ClipOther = []"
| "pyperclip_paste ClipEmpty = []"

text \<open>The steps of \<open>send_image_to_clipboard\<close> that can raise. Which one does, if any,
  is decided by the environment and given as a parameter.\<close>

datatype write_step = Encode | OpenClipboard | EmptyClipboard | SetClipboardData | CloseClipboard

text \<open>\<open>send_image_to_clipboard\<close>: the image is converted to \<open>RGB\<close> and encoded as a
  device-independent bitmap; the clipboard is opened, emptied, given the bitmap, and
  closed in the \<open>finally\<close> clause whatever happened after it was opened. The bitmap on
  the clipboard is modelled by the \<open>RGB\<close> image it encodes.\<close>

definition send_image_to_clipboard ::
  "write_step option \<Rightarrow> image \<Rightarrow> clip_state \<Rightarrow> (error + unit) \<times> clip_state" where
  "send_image_to_clipboard fault img cb =
     (if fault = Some Encode then (Inl EncodeError, cb)
      else
        let data = ImRGB (convert_RGB img) in
        if fault = Some OpenClipboard then (Inl ClipboardError, cb)
        else
          let cb = cb\<lparr>is_open := True\<rparr>;
              tried =
                (if fault = Some EmptyClipboard then (Inl ClipboardError, cb)
                 else
                   let cb = cb\<lparr>content := ClipEmpty\<rparr> in
                   if fault = Some SetClipboardData then (Inl ClipboardError, cb)
                   else (Inr (), cb\<lparr>content := ClipImage data\<rparr>))
          in if fault = Some CloseClipboard then (Inl ClipboardError, snd tried)
             else (fst tried, (snd tried)\<lparr>is_open := False\<rparr>))"

section \<open>The monitor loop\<close>

text \<open>The state of the loop of \<open>main\<close>: the clipboard, \<open>last_image_hash\<close>, and a log
  of the images \<open>send_image_to_clipboard\<close> was called with.\<close>

record monitor =
  clip :: clip_state
  last_image_hash :: "string option"
  write_calls :: "image list"

text \<open>What the environment does to one iteration: whether reading the clipboard raises,
  and which step of a write raises.\<close>

record faults =
  grab_fails :: bool
  paste_fails :: bool
  write_fault :: "write_step option"

definition no_faults :: faults where
  "no_faults = \<lparr>grab_fails = False, paste_fails = False, write_fault = None\<rparr>"

datatype outcome = Completed | Raised error

text \<open>The body of the \<open>try\<close> block of one iteration. An exception leaves the block at
  the statement that raised; the handler only logs it.\<close>

definition main_iteration ::
  "(byte list \<Rightarrow> string) \<Rightarrow> nat \<Rightarrow> int \<Rightarrow> faults \<Rightarrow> monitor \<Rightarrow> outcome \<times> monitor" where
  "main_iteration md5 PADDING TOLERANCE env s =
     (if grab_fails env then (Raised ClipboardError, s)
      else
        case grabclipboard (content (clip s)) of
          Some img \<Rightarrow>
            (let current_hash = get_image_hash md5 img in
             if Some current_hash \<noteq> last_image_hash s then
               (case trim_and_expand_border_to_content img PADDING TOLERANCE of
                  Inl e \<Rightarrow> (Raised e, s)
                | Inr processed_img \<Rightarrow>
                    (let processed_hash = get_image_hash md5 processed_img in
                     if processed_hash \<noteq> current_hash then
                       (case send_image_to_clipboard (write_fault env) processed_img (clip s) of
                          (Inl e, cb) \<Rightarrow>
                            (Raised e, s\<lparr>clip := cb,
                                         write_calls := write_calls s @ [processed_img]\<rparr>)
                        | (Inr u, cb) \<Rightarrow>
                            (Completed, s\<lparr>clip := cb,
                                           last_image_hash := Some processed_hash,
                                           write_calls := write_calls s @ [processed_img]\<rparr>))
                     else (Completed, s\<lparr>last_image_hash := Some current_hash\<rparr>)))
             else (Completed, s))
        | None \<Rightarrow>
            (if paste_fails env then (Raised ClipboardError, s)
             else if pyperclip_paste (content (clip s)) = [] then
               (Completed, s\<lparr>last_image_hash := None\<rparr>)
             else (Completed, s)))"

text \<open>One iteration in an environment where no clipboard call raises.\<close>

definition poll :: "(byte list \<Rightarrow> string) \<Rightarrow> nat \<Rightarrow> int \<Rightarrow> monitor \<Rightarrow> monitor" where
  "poll md5 PADDING TOLERANCE s = snd (main_iteration md5 PADDING TOLERANCE no_faults s)"

text \<open>Between two polls the user may replace what the clipboard holds.\<close>

definition user_copies :: "clipboard \<Rightarrow> monitor \<Rightarrow> monitor" where
  "user_copies c s = s\<lparr>clip := (clip s)\<lparr>content := c\<rparr>\<rparr>"

text \<open>A digest for running the loop on concrete inputs: the bytes spelt as characters.\<close>

definition spell_digest :: "byte list \<Rightarrow> string" where
  "spell_digest bs = map (\<lambda>b. char_of (unat b)) bs"

section \<open>Properties\<close>

subsection \<open>Bytes, luma and the lookup table\<close>

lemma unat_byte_le: "unat (x :: byte) \<le> 255"
  using unsigned_less [of x, where 'a = nat] by simp

lemma rgb2l_unat:
  "unat (rgb2l (r, g, b, a)) =
     (unat r * 19595 + unat g * 38470 + unat b * 7471 + 32768) div 65536"
proof -
  have "(unat r * 19595 + unat g * 38470 + unat b * 7471 + 32768) div 65536 < 256"
    using unat_byte_le [of r] unat_byte_le [of g] unat_byte_le [of b] by linarith
  then show ?thesis
    by (simp add: rgb2l_def unat_of_nat)
qed

lemma lut_of_nth:
  "n < 256 \<Longrightarrow> lut_of t ! n = (if t < int n then 255 else 0)"
  by (simp add: lut_of_def)

lemma lut_of_unat:
  "lut_of t ! unat (v :: byte) = (if t < int (unat v) then 255 else 0)"
  using unat_byte_le [of v] by (simp add: lut_of_nth)

lemma map2_replicate_right:
  "length xs \<le> n \<Longrightarrow> map2 f xs (replicate n c) = map (\<lambda>x. f x c) xs"
proof (induction xs arbitrary: n)
  case Nil
  then show ?case by simp
next
  case (Cons a xs)
  then obtain k where "n = Suc k" by (cases n) auto
  with Cons show ?case by simp
qed

lemma rect_nth_length: "rect g \<Longrightarrow> y < length g \<Longrightarrow> length (g ! y) = width g"
  by (simp add: rect_def)

lemma content_mask_map:
  assumes "rect g"
  shows "content_mask g bg t =
         map (map (\<lambda>p. if t < int (luma_distance p bg) then 255 else 0)) g"
proof -
  have row: "map2 pixel_difference r (replicate (width g) bg) = map (\<lambda>p. pixel_difference p bg) r"
    if "r \<in> set g" for r
    using that assms by (simp add: rect_def map2_replicate_right)
  have "difference g (new_image (size_of g) bg) =
          map (\<lambda>r. map2 pixel_difference r (replicate (width g) bg)) g"
    by (simp add: difference_def new_image_def size_of_def height_def map2_replicate_right)
  also have "\<dots> = map (map (\<lambda>p. pixel_difference p bg)) g"
    using row by simp
  finally show ?thesis
    by (simp add: content_mask_def convert_L_def point_def lut_of_unat luma_distance_def comp_def)
qed

subsection \<open>Bounding boxes\<close>

lemma sorted_hd_le: "sorted xs \<Longrightarrow> x \<in> set xs \<Longrightarrow> hd xs \<le> (x::nat)"
  by (cases xs) auto

lemma sorted_le_last: "sorted xs \<Longrightarrow> x \<in> set xs \<Longrightarrow> (x::nat) \<le> last xs"
  by (induction xs) (auto split: if_splits)

lemma filter_upt_bounds:
  assumes "filter P [0..<n] \<noteq> []"
  shows "P (hd (filter P [0..<n]))" "hd (filter P [0..<n]) < n"
        "\<And>x. x < n \<Longrightarrow> P x \<Longrightarrow> hd (filter P [0..<n]) \<le> x"
        "P (last (filter P [0..<n]))" "last (filter P [0..<n]) < n"
        "\<And>x. x < n \<Longrightarrow> P x \<Longrightarrow> x \<le> last (filter P [0..<n])"
proof -
  let ?xs = "filter P [0..<n]"
  have s: "sorted ?xs" by (simp add: sorted_filter [where f = "\<lambda>x. x", simplified])
  have "hd ?xs \<in> set ?xs" using assms by (rule hd_in_set)
  then show "P (hd ?xs)" "hd ?xs < n" by simp_all
  have "last ?xs \<in> set ?xs" using assms by (rule last_in_set)
  then show "P (last ?xs)" "last ?xs < n" by simp_all
  show "hd ?xs \<le> x" if "x < n" "P x" for x
    using s that by (intro sorted_hd_le) simp_all
  show "x \<le> last ?xs" if "x < n" "P x" for x
    using s that by (intro sorted_le_last) simp_all
qed

lemma nonzero_at_bounds:
  "rect m \<Longrightarrow> nonzero_at m x y \<Longrightarrow> y < length m \<and> x < width m"
  by (auto simp: nonzero_at_def rect_nth_length)

lemma nonzero_cols_eq:
  "rect m \<Longrightarrow> nonzero_cols m = filter (\<lambda>x. \<exists>y. nonzero_at m x y) [0..<width m]"
  unfolding nonzero_cols_def
  by (rule filter_cong) (use nonzero_at_bounds in force)+

lemma nonzero_rows_eq:
  "rect m \<Longrightarrow> nonzero_rows m = filter (\<lambda>y. \<exists>x. nonzero_at m x y) [0..<length m]"
  unfolding nonzero_rows_def
  by (rule filter_cong) (use nonzero_at_bounds in force)+

lemma getbbox_None_iff:
  assumes "rect m"
  shows "getbbox m = None \<longleftrightarrow> (\<forall>x y. \<not> nonzero_at m x y)"
  using assms
  by (auto simp: getbbox_def nonzero_rows_eq filter_empty_conv dest: nonzero_at_bounds)

lemma getbbox_Some_is_bbox:
  assumes r: "rect m" and g: "getbbox m = Some bx"
  shows "is_bbox m bx"
proof -
  let ?C = "\<lambda>x. \<exists>y. nonzero_at m x y" and ?R = "\<lambda>y. \<exists>x. nonzero_at m x y"
  from g have ne: "filter ?R [0..<length m] \<noteq> []"
    by (auto simp: getbbox_def nonzero_rows_eq [OF r] split: if_splits)
  then obtain x0 y0 where nz: "nonzero_at m x0 y0"
    by (auto simp: filter_empty_conv)
  then have nec: "filter ?C [0..<width m] \<noteq> []"
    using nonzero_at_bounds [OF r nz] by (auto simp: filter_empty_conv)
  from g ne have bx: "bx = (hd (filter ?C [0..<width m]), hd (filter ?R [0..<length m]),
      Suc (last (filter ?C [0..<width m])), Suc (last (filter ?R [0..<length m])))"
    by (auto simp: getbbox_def nonzero_rows_eq [OF r] nonzero_cols_eq [OF r] split: if_splits)
  note C = filter_upt_bounds [OF nec] and R = filter_upt_bounds [OF ne]
  have inside: "hd (filter ?C [0..<width m]) \<le> x \<and> x < Suc (last (filter ?C [0..<width m])) \<and>
                hd (filter ?R [0..<length m]) \<le> y \<and> y < Suc (last (filter ?R [0..<length m]))"
    if "nonzero_at m x y" for x y
  proof -
    from nonzero_at_bounds [OF r that] have "y < length m" "x < width m" by simp_all
    with that C(3) [of x] C(6) [of x] R(3) [of y] R(6) [of y] show ?thesis by (auto simp: less_Suc_eq_le)
  qed
  have "hd (filter ?C [0..<width m]) \<le> last (filter ?C [0..<width m])"
    using C(1) C(2) C(6) by blast
  moreover have "hd (filter ?R [0..<length m]) \<le> last (filter ?R [0..<length m])"
    using R(1) R(2) R(6) by blast
  ultimately show ?thesis
    unfolding bx is_bbox_def using C(1,2,4,5) R(1,2,4,5) inside
    by (simp add: less_Suc_eq_le Suc_le_eq)
qed

lemma is_bbox_unique:
  assumes "is_bbox m bx" "is_bbox m bx'"
  shows "bx = bx'"
proof -
  obtain l t r b where bx: "bx = (l, t, r, b)" by (cases bx) auto
  obtain l' t' r' b' where bx': "bx' = (l', t', r', b')" by (cases bx') auto
  from assms have 1: "l \<le> l'" "l' \<le> l" "t \<le> t'" "t' \<le> t"
    unfolding bx bx' is_bbox_def by (simp; blast)+
  from assms have 2: "r - 1 < r'" "r' - 1 < r" "b - 1 < b'" "b' - 1 < b" "l < r" "l' < r'" "t < b" "t' < b'"
    unfolding bx bx' is_bbox_def by (simp; blast)+
  from 1 2 show ?thesis unfolding bx bx' by auto
qed

lemma is_bbox_getbbox:
  assumes r: "rect m" and b: "is_bbox m bx"
  shows "getbbox m = Some bx"
proof -
  from b have "\<exists>x y. nonzero_at m x y"
    by (auto simp: is_bbox_def)
  then have "getbbox m \<noteq> None"
    by (simp add: getbbox_None_iff [OF r])
  then obtain bx' where g: "getbbox m = Some bx'" by auto
  from is_bbox_unique [OF getbbox_Some_is_bbox [OF r g] b] g show ?thesis by simp
qed

subsection \<open>The foreground mask\<close>

lemma width_map [simp]: "width (map (map f) g) = width g"
  by (cases g) (simp_all add: width_def)

lemma rect_map [simp]: "rect (map (map f) g) = rect g"
  by (simp add: rect_def)

lemma rect_convert_RGBA: "wf_image img \<Longrightarrow> rect (convert_RGBA img)"
  by (cases img) simp_all

lemma content_mask_nth:
  assumes "rect g" "y < length g" "x < width g"
  shows "content_mask g bg t ! y ! x = (if t < int (luma_distance (g ! y ! x) bg) then 255 else 0)"
  using assms
  by (simp add: content_mask_map rect_nth_length)

lemma content_mask_length [simp]: "rect g \<Longrightarrow> length (content_mask g bg t) = length g"
  by (simp add: content_mask_map)

lemma content_mask_width [simp]: "rect g \<Longrightarrow> width (content_mask g bg t) = width g"
  by (simp add: content_mask_map)

lemma content_mask_rect [simp]: "rect g \<Longrightarrow> rect (content_mask g bg t)"
  by (simp add: content_mask_map)

lemma nonzero_content_mask:
  assumes "rect g"
  shows "nonzero_at (content_mask g bg t) x y \<longleftrightarrow>
         y < length g \<and> x < width g \<and> t < int (luma_distance (g ! y ! x) bg)"
proof (cases "y < length g \<and> x < width g")
  case True
  then show ?thesis
    using assms content_mask_nth [OF assms, of y x bg t]
    by (simp add: nonzero_at_def rect_nth_length)
next
  case False
  then show ?thesis
    using assms by (auto simp: nonzero_at_def rect_nth_length)
qed

lemma getpixel_origin:
  "rect g \<Longrightarrow> 0 < length g \<Longrightarrow> 0 < width g \<Longrightarrow> getpixel g (0, 0) = Inr (g ! 0 ! 0)"
  using rect_nth_length [of g 0] by (auto simp: getpixel_def)

text \<open>
  Claim C4. The content box is computed with the pixel at \<open>(0, 0)\<close> of the image (after
  the conversion to \<open>RGBA\<close>) as the background colour: it is the bounding box of the
  mask of that colour. In the mask a pixel is 255 (foreground) exactly when the luma of its
  channel-wise absolute difference from the background colour is strictly greater than
  the tolerance, and 0 (background) otherwise, so a pixel whose luma equals the tolerance
  is background.
\<close>

theorem foreground_iff_luma_exceeds_tolerance:
  assumes "wf_image img0" and "y < height (convert_RGBA img0)" and "x < width (convert_RGBA img0)"
  shows "getpixel (convert_RGBA img0) (0, 0) = Inr (convert_RGBA img0 ! 0 ! 0) \<and>
         find_content_box img0 t =
           Inr (getbbox (content_mask (convert_RGBA img0) (convert_RGBA img0 ! 0 ! 0) t)) \<and>
         content_mask (convert_RGBA img0) (convert_RGBA img0 ! 0 ! 0) t ! y ! x =
           (if t < int (unat (rgb2l (pixel_difference (convert_RGBA img0 ! y ! x)
                                       (convert_RGBA img0 ! 0 ! 0))))
            then 255 else 0)"
proof -
  let ?G = "convert_RGBA img0"
  have r: "rect ?G" using assms(1) by (rule rect_convert_RGBA)
  have y: "y < length ?G" using assms(2) by (simp add: height_def)
  have gp: "getpixel ?G (0, 0) = Inr (?G ! 0 ! 0)"
    using r y assms(3) by (intro getpixel_origin) auto
  show ?thesis
    using gp content_mask_nth [OF r y assms(3), of "?G ! 0 ! 0" t]
    by (simp add: find_content_box_def luma_distance_def Let_def)
qed

theorem foreground_iff_luma_exceeds_tolerance_witness:
  "wf_image (ImRGB [[(255, 255, 255), (225, 225, 225), (224, 224, 224)]]) \<and>
   0 < height (convert_RGBA (ImRGB [[(255, 255, 255), (225, 225, 225), (224, 224, 224)]])) \<and>
   1 < width (convert_RGBA (ImRGB [[(255, 255, 255), (225, 225, 225), (224, 224, 224)]])) \<and>
   unat (rgb2l (pixel_difference (225, 225, 225, 255) (255, 255, 255, 255))) = 30 \<and>
   content_mask (convert_RGBA (ImRGB [[(255, 255, 255), (225, 225, 225), (224, 224, 224)]]))
     (255, 255, 255, 255) 30 ! 0 ! 1 = 0"
  using foreground_iff_luma_exceeds_tolerance
    [of "ImRGB [[(255, 255, 255), (225, 225, 225), (224, 224, 224)]]" 0 1 30]
  by (simp add: rect_def width_def height_def rgb2l_def pixel_difference_def chan_diff_def)

lemma luma_distance_alpha:
  "drop_alpha p = drop_alpha p' \<Longrightarrow> drop_alpha q = drop_alpha q' \<Longrightarrow>
   luma_distance p q = luma_distance p' q'"
  by (cases p; cases p'; cases q; cases q')
     (simp add: luma_distance_def pixel_difference_def rgb2l_def drop_alpha_def)

lemma same_colours_nth:
  assumes "map (map f) g' = map (map f) g"
  shows "length g' = length g"
    and "y < length g \<Longrightarrow> length (g' ! y) = length (g ! y)"
    and "y < length g \<Longrightarrow> x < length (g ! y) \<Longrightarrow> f (g' ! y ! x) = f (g ! y ! x)"
proof -
  show l: "length g' = length g"
    using assms by (metis length_map)
  have row: "map f (g' ! y) = map f (g ! y)" if "y < length g" for y
    using that l assms by (metis nth_map)
  show ly: "length (g' ! y) = length (g ! y)" if "y < length g"
    using row [OF that] by (metis length_map)
  show "f (g' ! y ! x) = f (g ! y ! x)" if "y < length g" "x < length (g ! y)"
    using row [OF that(1)] ly [OF that(1)] that(2) by (metis nth_map)
qed

lemma same_colours_width:
  assumes "map (map f) g' = map (map f) g"
  shows "width g' = width g"
proof -
  have "width (map (map f) g') = width (map (map f) g)" using assms by simp
  then show ?thesis by simp
qed

lemma same_colours_rect:
  assumes "map (map f) g' = map (map f) g" "rect g"
  shows "rect g'"
proof -
  have "rect (map (map f) g')" using assms by simp
  then show ?thesis by simp
qed

lemma grid_eqI:
  assumes "length a = length b"
    and "\<And>y. y < length b \<Longrightarrow> length (a ! y) = length (b ! y)"
    and "\<And>y x. y < length b \<Longrightarrow> x < length (b ! y) \<Longrightarrow> a ! y ! x = b ! y ! x"
  shows "a = b"
  using assms by (intro nth_equalityI) simp_all

lemma content_mask_nth_length:
  "rect g \<Longrightarrow> y < length g \<Longrightarrow> length (content_mask g bg t ! y) = width g"
  by (simp add: content_mask_map rect_nth_length)

text \<open>
  Claim C9. The alpha channel takes no part in the classification. Two \<open>RGBA\<close> images
  with the same colour channels and any alpha values have the same mask and the same
  content box; so a pixel whose colour channels are within the tolerance of those of the
  pixel at \<open>(0, 0)\<close> is background whatever its alpha and the alpha of that pixel are.
\<close>

theorem alpha_never_contributes:
  assumes "rect g" and "map (map drop_alpha) g' = map (map drop_alpha) g"
  shows "content_mask g' (g' ! 0 ! 0) t = content_mask g (g ! 0 ! 0) t \<and>
         find_content_box (ImRGBA g') t = find_content_box (ImRGBA g) t \<and>
         (\<forall>y < length g. \<forall>x < width g.
            int (luma_distance (g ! y ! x) (g ! 0 ! 0)) \<le> t \<longrightarrow>
            content_mask g' (g' ! 0 ! 0) t ! y ! x = 0)"
proof -
  note n = same_colours_nth [OF assms(2)]
  have r': "rect g'" using assms(2,1) by (rule same_colours_rect)
  have w: "width g' = width g" using assms(2) by (rule same_colours_width)
  have px: "luma_distance (g' ! y ! x) (g' ! 0 ! 0) = luma_distance (g ! y ! x) (g ! 0 ! 0)"
    if "y < length g" "x < width g" for y x
  proof -
    have "0 < length g" using that by auto
    moreover from this have "length (g ! 0) = width g" "length (g ! y) = width g"
      using that assms(1) by (simp_all add: rect_nth_length)
    ultimately have "0 < length g" "0 < length (g ! 0)" "x < length (g ! y)"
      using that by simp_all
    then show ?thesis
      using that by (intro luma_distance_alpha n(3)) simp_all
  qed
  have m: "content_mask g' (g' ! 0 ! 0) t = content_mask g (g ! 0 ! 0) t"
  proof (rule grid_eqI)
    show "length (content_mask g' (g' ! 0 ! 0) t) = length (content_mask g (g ! 0 ! 0) t)"
      using r' assms(1) n(1) by simp
  next
    fix y assume "y < length (content_mask g (g ! 0 ! 0) t)"
    then have "y < length g" using assms(1) by simp
    then show "length (content_mask g' (g' ! 0 ! 0) t ! y) = length (content_mask g (g ! 0 ! 0) t ! y)"
      using r' assms(1) n(1) w by (simp add: content_mask_nth_length)
  next
    fix y x assume "y < length (content_mask g (g ! 0 ! 0) t)"
      and "x < length (content_mask g (g ! 0 ! 0) t ! y)"
    then have yx: "y < length g" "x < width g"
      using assms(1) by (simp_all add: content_mask_nth_length)
    then show "content_mask g' (g' ! 0 ! 0) t ! y ! x = content_mask g (g ! 0 ! 0) t ! y ! x"
      using r' assms(1) n(1) w px [OF yx] by (simp add: content_mask_nth)
  qed
  have gp: "getpixel g' (0, 0) = Inl IndexError \<and> getpixel g (0, 0) = Inl IndexError \<or>
            getpixel g' (0, 0) = Inr (g' ! 0 ! 0) \<and> getpixel g (0, 0) = Inr (g ! 0 ! 0)"
  proof (cases "g = []")
    case True
    then show ?thesis using n(1) by (simp add: getpixel_def)
  next
    case False
    then have "length (g' ! 0) = length (g ! 0)" by (intro n(2)) simp
    then show ?thesis using n(1) False by (auto simp: getpixel_def)
  qed
  have f: "find_content_box (ImRGBA g') t = find_content_box (ImRGBA g) t"
    using gp m by (auto simp: find_content_box_def)
  have z: "content_mask g' (g' ! 0 ! 0) t ! y ! x = 0"
    if "y < length g" "x < width g" "int (luma_distance (g ! y ! x) (g ! 0 ! 0)) \<le> t" for y x
    using that assms(1) unfolding m by (simp add: content_mask_nth)
  from m f z show ?thesis by blast
qed

theorem alpha_never_contributes_witness:
  "rect ([[(255, 255, 255, 255), (250, 250, 250, 255)]] :: rgba grid) \<and>
   map (map drop_alpha) [[(255, 255, 255, 0), (250, 250, 250, 7)]] =
     map (map drop_alpha) [[(255, 255, 255, 255), (250, 250, 250, 255)]] \<and>
   find_content_box (ImRGBA [[(255, 255, 255, 0), (250, 250, 250, 7)]]) 30 =
     find_content_box (ImRGBA [[(255, 255, 255, 255), (250, 250, 250, 255)]]) 30 \<and>
   content_mask [[(255, 255, 255, 0), (250, 250, 250, 7)]] (255, 255, 255, 0) 30 ! 0 ! 1 = 0"
proof -
  let ?g = "[[(255, 255, 255, 255), (250, 250, 250, 255)]] :: rgba grid"
  let ?g' = "[[(255, 255, 255, 0), (250, 250, 250, 7)]] :: rgba grid"
  have h1: "rect ?g" by (simp add: rect_def width_def)
  have h2: "map (map drop_alpha) ?g' = map (map drop_alpha) ?g" by (simp add: drop_alpha_def)
  from alpha_never_contributes [OF h1 h2, of 30]
  have f: "find_content_box (ImRGBA ?g') 30 = find_content_box (ImRGBA ?g) 30"
    and z: "\<forall>y < length ?g. \<forall>x < width ?g.
            int (luma_distance (?g ! y ! x) (?g ! 0 ! 0)) \<le> 30 \<longrightarrow>
            content_mask ?g' (?g' ! 0 ! 0) 30 ! y ! x = 0"
    by blast+
  have "int (luma_distance (?g ! 0 ! 1) (?g ! 0 ! 0)) \<le> 30"
    by (simp add: luma_distance_def pixel_difference_def chan_diff_def rgb2l_def)
  moreover have "0 < length ?g" "1 < width ?g" by (simp_all add: width_def)
  ultimately have "content_mask ?g' (?g' ! 0 ! 0) 30 ! 0 ! 1 = 0"
    using z by blast
  then show ?thesis using h1 h2 f by simp
qed

subsection \<open>Cropping, pasting and the canvas\<close>

lemma div255_exact:
  "(n::nat) \<le> 255 \<Longrightarrow> ((n * 255 + 128) div 256 + (n * 255 + 128)) div 256 = n"
  by arith

lemma blend8_opaque: "blend8 255 d s = s"
  using div255_exact [OF unat_byte_le [of s]] by (simp add: blend8_def)

lemma blend_pixel_opaque: "blend_pixel 255 d s = s"
  by (cases d; cases s) (simp add: blend_pixel_def channel_mask_def blend8_opaque)

lemma new_image_length [simp]: "length (new_image (w, h) c) = h"
  by (simp add: new_image_def)

lemma new_image_nth [simp]: "y < h \<Longrightarrow> new_image (w, h) c ! y = replicate w c"
  by (simp add: new_image_def)

lemma crop_length:
  "b \<le> length g \<Longrightarrow> length (crop g (l, t, r, b)) = b - t"
  by (simp add: crop_def)

lemma crop_nth_length:
  assumes "rect g" "b \<le> length g" "r \<le> width g" "j < b - t"
  shows "length (crop g (l, t, r, b) ! j) = r - l"
proof -
  have "t + j < length g" using assms by simp
  then have "length (g ! (t + j)) = width g" using assms(1) by (simp add: rect_nth_length)
  then show ?thesis using assms by (simp add: crop_def)
qed

lemma crop_nth:
  assumes "rect g" "b \<le> length g" "r \<le> width g" "j < b - t" "i < r - l"
  shows "crop g (l, t, r, b) ! j ! i = g ! (t + j) ! (l + i)"
proof -
  have "t + j < length g" using assms by simp
  then have "length (g ! (t + j)) = width g" using assms(1) by (simp add: rect_nth_length)
  then show ?thesis using assms by (simp add: crop_def)
qed

lemma width_nth0: "0 < length g \<Longrightarrow> width g = length (g ! 0)"
  by (cases g) (simp_all add: width_def)

lemma crop_width:
  assumes "rect g" "b \<le> length g" "r \<le> width g" "t < b"
  shows "width (crop g (l, t, r, b)) = r - l"
proof -
  have "0 < length (crop g (l, t, r, b))" using assms by (simp add: crop_length)
  then have "width (crop g (l, t, r, b)) = length (crop g (l, t, r, b) ! 0)"
    by (rule width_nth0)
  then show ?thesis using assms by (simp add: crop_nth_length)
qed

lemma rectI:
  "(\<And>y. y < length g \<Longrightarrow> length (g ! y) = w) \<Longrightarrow> rect g"
  unfolding rect_def
proof
  fix r assume a: "\<And>y. y < length g \<Longrightarrow> length (g ! y) = w" and r: "r \<in> set g"
  then obtain y where y: "y < length g" "r = g ! y" by (metis in_set_conv_nth)
  then have "0 < length g" by auto
  then have "width g = length (g ! 0)" by (rule width_nth0)
  then show "length r = width g" using a [of 0] a [of y] y \<open>0 < length g\<close> by simp
qed

lemma crop_rect:
  assumes "rect g" "b \<le> length g" "r \<le> width g"
  shows "rect (crop g (l, t, r, b))"
  using assms by (intro rectI [where w = "r - l"]) (simp add: crop_length crop_nth_length)

lemma paste_length [simp]: "length (paste dst src (ox, oy) msk) = length dst"
  by (simp add: paste_def)

lemma paste_nth_length [simp]:
  "y < length dst \<Longrightarrow> length (paste dst src (ox, oy) msk ! y) = length (dst ! y)"
  by (simp add: paste_def)

lemma paste_nth:
  "y < length dst \<Longrightarrow> x < length (dst ! y) \<Longrightarrow>
   paste dst src (ox, oy) msk ! y ! x =
     (if oy \<le> y \<and> y - oy < length src \<and> ox \<le> x \<and> x - ox < length (src ! (y - oy))
      then blend_pixel (alpha_of (msk ! (y - oy) ! (x - ox))) (dst ! y ! x)
             (src ! (y - oy) ! (x - ox))
      else dst ! y ! x)"
  by (simp add: paste_def)

lemma framed_length [simp]: "length (framed p bg obj) = length obj + p * 2"
  by (simp add: framed_def height_def)

lemma framed_nth_length [simp]:
  "y < length obj + p * 2 \<Longrightarrow> length (framed p bg obj ! y) = width obj + p * 2"
  by (simp add: framed_def height_def)

lemma framed_rect [simp]: "rect (framed p bg obj)"
  by (rule rectI [where w = "width obj + p * 2"]) simp

lemma framed_width:
  "0 < length obj \<Longrightarrow> width (framed p bg obj) = width obj + p * 2"
  by (simp add: width_nth0 [of "framed p bg obj"])

lemma framed_nth:
  assumes "rect obj" "y < length obj + p * 2" "x < width obj + p * 2"
  shows "framed p bg obj ! y ! x =
     (if p \<le> y \<and> y < p + length obj \<and> p \<le> x \<and> x < p + width obj
      then blend_pixel (alpha_of (obj ! (y - p) ! (x - p))) bg (obj ! (y - p) ! (x - p))
      else bg)"
proof -
  have "length (obj ! (y - p)) = width obj" if "y - p < length obj"
    using that assms(1) by (simp add: rect_nth_length)
  then show ?thesis
    using assms(2,3) by (auto simp: framed_def height_def paste_nth)
qed

lemma normalize_unfold:
  "trim_and_expand_border_to_content img0 p t =
     (case getpixel (convert_RGBA img0) (0, 0) of
        Inl e \<Rightarrow> Inl e
      | Inr bg \<Rightarrow>
          (case getbbox (content_mask (convert_RGBA img0) bg t) of
             None \<Rightarrow> Inr (ImRGBA (convert_RGBA img0))
           | Some bbox \<Rightarrow>
               Inr (ImRGB (map (map drop_alpha) (framed p bg (crop (convert_RGBA img0) bbox))))))"
  by (simp add: trim_and_expand_border_to_content_def framed_def Let_def
      split: sum.splits option.splits)

subsection \<open>Evaluating the normalizer on small images\<close>

lemmas eval_image =
  trim_and_expand_border_to_content_def getpixel_def content_mask_def new_image_def
  size_of_def width_def height_def difference_def pixel_difference_def chan_diff_def
  convert_L_def rgb2l_def point_def lut_of_unat getbbox_def nonzero_rows_def nonzero_cols_def
  nonzero_at_def crop_def paste_def blend_pixel_def channel_mask_def blend8_def alpha_of_def
  drop_alpha_def
  Let_def atLeast0_lessThan_Suc

lemma normalize_strip_no_padding:
  "trim_and_expand_border_to_content (ImRGB [[(255, 255, 255), (0, 0, 0)]]) 0 30 =
     Inr (ImRGB [[(0, 0, 0)]])"
  by (simp add: eval_image)

subsection \<open>The result of the normalizer\<close>

lemma luma_distance_self [simp]: "luma_distance p p = 0"
  by (cases p) (simp add: luma_distance_def pixel_difference_def chan_diff_def rgb2l_def)

lemma uniform_no_box:
  assumes "rect g"
    and "\<And>y x. y < length g \<Longrightarrow> x < width g \<Longrightarrow> int (luma_distance (g ! y ! x) bg) \<le> t"
  shows "getbbox (content_mask g bg t) = None"
proof -
  have "\<not> nonzero_at (content_mask g bg t) x y" for x y
    using assms(2) [of y x] by (auto simp: nonzero_content_mask [OF assms(1)])
  then show ?thesis
    using assms(1) by (simp add: getbbox_None_iff)
qed

lemma is_bbox_shift:
  assumes nz: "\<And>x y. nonzero_at m' x y \<longleftrightarrow> dx \<le> x \<and> dy \<le> y \<and> nonzero_at m (x - dx) (y - dy)"
    and b: "is_bbox m (l, t, r, b)"
    and w: "r + dx \<le> width m'" and h: "b + dy \<le> length m'"
  shows "is_bbox m' (l + dx, t + dy, r + dx, b + dy)"
proof -
  from b have lr: "l < r" "t < b"
    and inside: "\<And>x y. nonzero_at m x y \<Longrightarrow> l \<le> x \<and> x < r \<and> t \<le> y \<and> y < b"
    and ex: "\<exists>y. nonzero_at m l y" "\<exists>y. nonzero_at m (r - 1) y"
            "\<exists>x. nonzero_at m x t" "\<exists>x. nonzero_at m x (b - 1)"
    unfolding is_bbox_def by auto
  have in': "l + dx \<le> x \<and> x < r + dx \<and> t + dy \<le> y \<and> y < b + dy" if "nonzero_at m' x y" for x y
  proof -
    from that nz have "dx \<le> x" "dy \<le> y" "nonzero_at m (x - dx) (y - dy)" by auto
    with inside [of "x - dx" "y - dy"] show ?thesis by auto
  qed
  have up: "nonzero_at m' (x + dx) (y + dy)" if "nonzero_at m x y" for x y
    using that nz [of "x + dx" "y + dy"] by simp
  have e1: "\<exists>y. nonzero_at m' (l + dx) y" using ex(1) up by blast
  have e2: "\<exists>y. nonzero_at m' (r + dx - 1) y"
  proof -
    from ex(2) obtain y where "nonzero_at m (r - 1) y" ..
    then have "nonzero_at m' (r - 1 + dx) (y + dy)" by (rule up)
    moreover have "r - 1 + dx = r + dx - 1" using lr by simp
    ultimately show ?thesis by auto
  qed
  have e3: "\<exists>x. nonzero_at m' x (t + dy)" using ex(3) up by blast
  have e4: "\<exists>x. nonzero_at m' x (b + dy - 1)"
  proof -
    from ex(4) obtain x where "nonzero_at m x (b - 1)" ..
    then have "nonzero_at m' (x + dx) (b - 1 + dy)" by (rule up)
    moreover have "b - 1 + dy = b + dy - 1" using lr by simp
    ultimately show ?thesis by auto
  qed
  show ?thesis
    unfolding is_bbox_def using lr w h in' e1 e2 e3 e4 by simp
qed

lemma is_bbox_crop:
  assumes nz: "\<And>x y. nonzero_at m' x y \<longleftrightarrow> nonzero_at m (x + l) (y + t)"
    and b: "is_bbox m (l, t, r, b)"
    and w: "width m' = r - l" and h: "length m' = b - t"
  shows "is_bbox m' (0, 0, r - l, b - t)"
proof -
  from b have lr: "l < r" "t < b"
    and inside: "\<And>x y. nonzero_at m x y \<Longrightarrow> l \<le> x \<and> x < r \<and> t \<le> y \<and> y < b"
    and ex: "\<exists>y. nonzero_at m l y" "\<exists>y. nonzero_at m (r - 1) y"
            "\<exists>x. nonzero_at m x t" "\<exists>x. nonzero_at m x (b - 1)"
    unfolding is_bbox_def by auto
  have in': "x < r - l \<and> y < b - t" if "nonzero_at m' x y" for x y
    using inside [of "x + l" "y + t"] that nz by auto
  have down: "nonzero_at m' (x - l) (y - t)" if "nonzero_at m x y" for x y
    using that inside [OF that] nz [of "x - l" "y - t"] by simp
  have e1: "\<exists>y. nonzero_at m' 0 y" using ex(1) down [of l] by auto
  have e2: "\<exists>y. nonzero_at m' (r - l - 1) y"
  proof -
    from ex(2) obtain y where "nonzero_at m (r - 1) y" ..
    then have "nonzero_at m' (r - 1 - l) (y - t)" by (rule down)
    then show ?thesis by (auto simp: diff_commute)
  qed
  have e3: "\<exists>x. nonzero_at m' x 0" using ex(3) down [of _ t] by auto
  have e4: "\<exists>x. nonzero_at m' x (b - t - 1)"
  proof -
    from ex(4) obtain x where "nonzero_at m x (b - 1)" ..
    then have "nonzero_at m' (x - l) (b - 1 - t)" by (rule down)
    then show ?thesis by (auto simp: diff_commute)
  qed
  show ?thesis
    unfolding is_bbox_def using lr w h in' e1 e2 e3 e4 by simp
qed

lemma opaque_grid_nth:
  "opaque_grid g \<Longrightarrow> y < length g \<Longrightarrow> x < length (g ! y) \<Longrightarrow> alpha_of (g ! y ! x) = 255"
proof -
  assume o: "opaque_grid g" and y: "y < length g" and x: "x < length (g ! y)"
  have "g ! y \<in> set g" using y by (rule nth_mem)
  moreover have "g ! y ! x \<in> set (g ! y)" using x by (rule nth_mem)
  ultimately show ?thesis using o unfolding opaque_grid_def by blast
qed

lemma opaque_gridI:
  assumes "\<And>y x. y < length g \<Longrightarrow> x < length (g ! y) \<Longrightarrow> alpha_of (g ! y ! x) = 255"
  shows "opaque_grid g"
  unfolding opaque_grid_def using assms by (metis in_set_conv_nth)

lemma opaque_convert_RGBA: "opaque img \<Longrightarrow> opaque_grid (convert_RGBA img)"
  by (cases img) (auto simp: opaque_grid_def alpha_of_def)

lemma restore_alpha:
  "alpha_of q = 255 \<Longrightarrow> (case drop_alpha q of (r, g, b) \<Rightarrow> (r, g, b, 255)) = q"
  by (cases q) (simp add: alpha_of_def drop_alpha_def)

lemma crop_of_bbox:
  assumes r: "rect g" and bb: "is_bbox (content_mask g bg t) (l, tp, r', b)"
  shows "rect (crop g (l, tp, r', b))"
    and "length (crop g (l, tp, r', b)) = b - tp"
    and "width (crop g (l, tp, r', b)) = r' - l"
    and "is_bbox (content_mask (crop g (l, tp, r', b)) bg t) (0, 0, r' - l, b - tp)"
    and "opaque_grid g \<Longrightarrow> opaque_grid (crop g (l, tp, r', b))"
proof -
  let ?O = "crop g (l, tp, r', b)"
  from bb r have bounds: "l < r'" "tp < b" "r' \<le> width g" "b \<le> length g"
    by (simp_all add: is_bbox_def)
  show rO: "rect ?O" using r bounds by (intro crop_rect) simp_all
  show lO: "length ?O = b - tp" using bounds by (simp add: crop_length)
  show wO: "width ?O = r' - l" using r bounds by (simp add: crop_width)
  have px: "?O ! y ! x = g ! (tp + y) ! (l + x)" if "y < b - tp" "x < r' - l" for x y
    using r bounds that by (simp add: crop_nth)
  have inside: "l \<le> x \<and> x < r' \<and> tp \<le> y \<and> y < b" if "nonzero_at (content_mask g bg t) x y" for x y
    using bb that unfolding is_bbox_def by simp
  have nz: "nonzero_at (content_mask ?O bg t) x y \<longleftrightarrow> nonzero_at (content_mask g bg t) (x + l) (y + tp)"
    for x y
  proof
    assume "nonzero_at (content_mask ?O bg t) x y"
    then have "y < b - tp" "x < r' - l" "t < int (luma_distance (?O ! y ! x) bg)"
      using rO lO wO by (simp_all add: nonzero_content_mask)
    moreover from this have "y + tp < length g" "x + l < width g"
      using bounds by auto
    ultimately show "nonzero_at (content_mask g bg t) (x + l) (y + tp)"
      using r px [of y x] by (simp add: nonzero_content_mask add.commute)
  next
    assume a: "nonzero_at (content_mask g bg t) (x + l) (y + tp)"
    from inside [OF a] have "y < b - tp" "x < r' - l" by auto
    moreover from a have "t < int (luma_distance (g ! (y + tp) ! (x + l)) bg)"
      using r by (simp add: nonzero_content_mask)
    ultimately show "nonzero_at (content_mask ?O bg t) x y"
      using rO lO wO px [of y x] by (simp add: nonzero_content_mask add.commute)
  qed
  show "is_bbox (content_mask ?O bg t) (0, 0, r' - l, b - tp)"
    using nz bb by (rule is_bbox_crop) (simp_all add: rO lO wO)
  show "opaque_grid ?O" if og: "opaque_grid g"
  proof (rule opaque_gridI)
    fix y x assume "y < length ?O" "x < length (?O ! y)"
    then have yx: "y < b - tp" "x < r' - l"
      using lO r bounds by (simp_all add: crop_nth_length)
    then have "tp + y < length g" "l + x < length (g ! (tp + y))"
      using bounds r by (simp_all add: rect_nth_length)
    then show "alpha_of (?O ! y ! x) = 255"
      using og px [OF yx] by (simp add: opaque_grid_nth)
  qed
qed

lemma framed_opaque_nth:
  assumes "rect obj" "opaque_grid obj" "y < length obj + p * 2" "x < width obj + p * 2"
  shows "framed p bg obj ! y ! x =
     (if p \<le> y \<and> y < p + length obj \<and> p \<le> x \<and> x < p + width obj
      then obj ! (y - p) ! (x - p) else bg)"
proof -
  have "alpha_of (obj ! (y - p) ! (x - p)) = 255"
    if "p \<le> y" "y < p + length obj" "p \<le> x" "x < p + width obj"
  proof -
    have "y - p < length obj" using that by auto
    moreover from this have "x - p < length (obj ! (y - p))"
      using that assms(1) by (auto simp: rect_nth_length)
    ultimately show ?thesis using assms(2) by (rule opaque_grid_nth [rotated])
  qed
  then show ?thesis
    unfolding framed_nth [OF assms(1,3,4)] by (auto simp: blend_pixel_opaque)
qed

lemma second_pass_fixed:
  assumes ro: "rect obj" and h: "0 < length obj" and w: "0 < width obj"
    and oo: "opaque_grid obj" and ob: "alpha_of bg = 255"
    and p: "0 < p" and t: "0 \<le> t"
    and tight: "is_bbox (content_mask obj bg t) (0, 0, width obj, length obj)"
  shows "trim_and_expand_border_to_content (ImRGB (map (map drop_alpha) (framed p bg obj))) p t =
           Inr (ImRGB (map (map drop_alpha) (framed p bg obj)))"
proof -
  let ?S = "framed p bg obj"
  have lS: "length ?S = length obj + p * 2" by simp
  have wS: "width ?S = width obj + p * 2" using h by (rule framed_width)
  have rowS: "length (?S ! y) = width obj + p * 2" if "y < length obj + p * 2" for y
    using that by simp
  note px = framed_opaque_nth [OF ro oo, of _ p _ bg]
  have alpha: "alpha_of (?S ! y ! x) = 255" if "y < length obj + p * 2" "x < width obj + p * 2" for y x
  proof -
    have "alpha_of (obj ! (y - p) ! (x - p)) = 255"
      if "p \<le> y" "y < p + length obj" "p \<le> x" "x < p + width obj"
    proof -
      have "y - p < length obj" using that by auto
      moreover from this have "x - p < length (obj ! (y - p))"
        using that ro by (auto simp: rect_nth_length)
      ultimately show ?thesis using oo by (rule opaque_grid_nth [rotated])
    qed
    then show ?thesis
      unfolding px [OF that] using ob by auto
  qed
  have conv: "convert_RGBA (ImRGB (map (map drop_alpha) ?S)) = ?S"
  proof (rule grid_eqI)
    show "length (convert_RGBA (ImRGB (map (map drop_alpha) ?S))) = length ?S" by simp
  next
    fix y assume "y < length ?S"
    then show "length (convert_RGBA (ImRGB (map (map drop_alpha) ?S)) ! y) = length (?S ! y)"
      by simp
  next
    fix y x assume yx: "y < length ?S" "x < length (?S ! y)"
    then have "alpha_of (?S ! y ! x) = 255" by (intro alpha) simp_all
    then show "convert_RGBA (ImRGB (map (map drop_alpha) ?S)) ! y ! x = ?S ! y ! x"
      using yx by (simp add: restore_alpha)
  qed
  have origin: "?S ! 0 ! 0 = bg"
    using p px [of 0 0] by simp
  have gp: "getpixel ?S (0, 0) = Inr bg"
    using origin p wS by (simp add: getpixel_origin)
  have nz: "nonzero_at (content_mask ?S bg t) x y \<longleftrightarrow>
            p \<le> x \<and> p \<le> y \<and> nonzero_at (content_mask obj bg t) (x - p) (y - p)" for x y
  proof (cases "y < length obj + p * 2 \<and> x < width obj + p * 2")
    case True
    then have "?S ! y ! x =
       (if p \<le> y \<and> y < p + length obj \<and> p \<le> x \<and> x < p + width obj
        then obj ! (y - p) ! (x - p) else bg)"
      by (intro px) simp_all
    then show ?thesis
      using True t wS by (auto simp: nonzero_content_mask ro)
  next
    case False
    then show ?thesis
      using wS by (auto simp: nonzero_content_mask ro)
  qed
  have "is_bbox (content_mask ?S bg t) (0 + p, 0 + p, width obj + p, length obj + p)"
    using nz tight by (rule is_bbox_shift) (simp_all add: wS)
  then have bb: "getbbox (content_mask ?S bg t) = Some (p, p, width obj + p, length obj + p)"
    by (intro is_bbox_getbbox) simp_all
  have cr: "crop ?S (p, p, width obj + p, length obj + p) = obj"
  proof (rule grid_eqI)
    show "length (crop ?S (p, p, width obj + p, length obj + p)) = length obj"
      by (simp add: crop_length)
  next
    fix y assume "y < length obj"
    then show "length (crop ?S (p, p, width obj + p, length obj + p) ! y) = length (obj ! y)"
      using ro wS by (simp add: crop_nth_length rect_nth_length)
  next
    fix y x assume yx: "y < length obj" "x < length (obj ! y)"
    then have x: "x < width obj" using ro by (simp add: rect_nth_length)
    have "crop ?S (p, p, width obj + p, length obj + p) ! y ! x = ?S ! (p + y) ! (p + x)"
      using yx(1) x wS by (intro crop_nth) simp_all
    also have "\<dots> = obj ! y ! x"
      using yx(1) x px [of "p + y" "p + x"] by simp
    finally show "crop ?S (p, p, width obj + p, length obj + p) ! y ! x = obj ! y ! x" .
  qed
  show ?thesis
    unfolding normalize_unfold conv by (simp add: gp bb cr)
qed

lemma getpixel_origin_cases:
  "getpixel g (0, 0) = Inl IndexError \<or>
   (getpixel g (0, 0) = Inr (g ! 0 ! 0) \<and> 0 < length g \<and> 0 < length (g ! 0))"
  by (simp add: getpixel_def)

lemma normalize_of_box:
  assumes "getpixel (convert_RGBA img) (0, 0) = Inr bg"
    and "getbbox (content_mask (convert_RGBA img) bg t) = Some bx"
  shows "trim_and_expand_border_to_content img p t =
           Inr (ImRGB (map (map drop_alpha) (framed p bg (crop (convert_RGBA img) bx))))"
  using assms by (simp add: normalize_unfold)

lemma normalize_of_no_box:
  assumes "getpixel (convert_RGBA img) (0, 0) = Inr bg"
    and "getbbox (content_mask (convert_RGBA img) bg t) = None"
  shows "trim_and_expand_border_to_content img p t = Inr (ImRGBA (convert_RGBA img))"
  using assms by (simp add: normalize_unfold)

lemma uniform_image_result:
  assumes wf: "wf_image img"
    and ne: "0 < height (convert_RGBA img)" "0 < width (convert_RGBA img)"
    and un: "\<And>y x. y < height (convert_RGBA img) \<Longrightarrow> x < width (convert_RGBA img) \<Longrightarrow>
              int (luma_distance (convert_RGBA img ! y ! x) (convert_RGBA img ! 0 ! 0)) \<le> t"
  shows "find_content_box img t = Inr None"
    and "trim_and_expand_border_to_content img p t = Inr (ImRGBA (convert_RGBA img))"
proof -
  let ?G = "convert_RGBA img"
  have r: "rect ?G" using wf by (rule rect_convert_RGBA)
  have gp: "getpixel ?G (0, 0) = Inr (?G ! 0 ! 0)"
    using r ne by (intro getpixel_origin) (simp_all add: height_def)
  have nb: "getbbox (content_mask ?G (?G ! 0 ! 0) t) = None"
    using r un by (intro uniform_no_box) (simp_all add: height_def)
  show "find_content_box img t = Inr None"
    using gp nb by (simp add: find_content_box_def)
  show "trim_and_expand_border_to_content img p t = Inr (ImRGBA ?G)"
    using gp nb by (rule normalize_of_no_box)
qed

text \<open>
  Claim C2: for a uniform image the content box is \<open>None\<close> and the normalizer
  returns the image unchanged. On a uniform \<open>RGB\<close> image of two white pixels the
  content box is \<open>None\<close>, but the normalizer returns the image converted to
  \<open>RGBA\<close>, which is not the image it was given. (\<open>uniform_image_result\<close> above
  gives the result for every image whose pixels are within the tolerance of the pixel at
  \<open>(0, 0)\<close>.)
\<close>

theorem uniform_image_returned_converted:
  "find_content_box (ImRGB [[(255, 255, 255), (255, 255, 255)]]) 30 = Inr None \<and>
   trim_and_expand_border_to_content (ImRGB [[(255, 255, 255), (255, 255, 255)]]) 10 30 =
     Inr (ImRGBA [[(255, 255, 255, 255), (255, 255, 255, 255)]]) \<and>
   trim_and_expand_border_to_content (ImRGB [[(255, 255, 255), (255, 255, 255)]]) 10 30 \<noteq>
     Inr (ImRGB [[(255, 255, 255), (255, 255, 255)]])"
  by (simp add: find_content_box_def eval_image)

text \<open>
  Claim C1, amended. For an opaque image (mode \<open>L\<close> or \<open>RGB\<close>, or \<open>RGBA\<close> with every
  alpha 255), a padding of at least 1 and a tolerance of at least 0, a second pass of the
  normalizer returns what the first pass returned, pixel for pixel and in the same mode;
  when the first pass raises, so does the composition.
\<close>

theorem normalize_idempotent_opaque:
  assumes wf: "wf_image img" and op: "opaque img" and p: "0 < p" and t: "0 \<le> t"
  shows "normalize_twice img p t = trim_and_expand_border_to_content img p t"
proof -
  let ?G = "convert_RGBA img"
  have r: "rect ?G" using wf by (rule rect_convert_RGBA)
  have og: "opaque_grid ?G" using op by (rule opaque_convert_RGBA)
  from getpixel_origin_cases [of ?G] show ?thesis
  proof
    assume "getpixel ?G (0, 0) = Inl IndexError"
    then show ?thesis by (simp add: normalize_twice_def normalize_unfold)
  next
    assume "getpixel ?G (0, 0) = Inr (?G ! 0 ! 0) \<and> 0 < length ?G \<and> 0 < length (?G ! 0)"
    then have gp: "getpixel ?G (0, 0) = Inr (?G ! 0 ! 0)"
      and ne: "0 < length ?G" "0 < length (?G ! 0)" by simp_all
    let ?bg = "?G ! 0 ! 0"
    have ab: "alpha_of ?bg = 255" using og ne by (rule opaque_grid_nth)
    show ?thesis
    proof (cases "getbbox (content_mask ?G ?bg t)")
      case None
      have 1: "trim_and_expand_border_to_content img p t = Inr (ImRGBA ?G)"
        using gp None by (rule normalize_of_no_box)
      have 2: "trim_and_expand_border_to_content (ImRGBA ?G) p t = Inr (ImRGBA ?G)"
        using gp None by (simp add: normalize_unfold)
      show ?thesis by (simp add: normalize_twice_def 1 2)
    next
      case (Some bx)
      obtain l tp r' b where bx: "bx = (l, tp, r', b)" by (cases bx) auto
      have bb: "is_bbox (content_mask ?G ?bg t) (l, tp, r', b)"
        using r Some unfolding bx by (intro getbbox_Some_is_bbox) simp_all
      then have pos: "l < r'" "tp < b" by (simp_all add: is_bbox_def)
      note c = crop_of_bbox [OF r bb]
      let ?O = "crop ?G (l, tp, r', b)"
      have 1: "trim_and_expand_border_to_content img p t =
                 Inr (ImRGB (map (map drop_alpha) (framed p ?bg ?O)))"
        using gp Some unfolding bx by (rule normalize_of_box)
      have 2: "trim_and_expand_border_to_content (ImRGB (map (map drop_alpha) (framed p ?bg ?O))) p t =
                 Inr (ImRGB (map (map drop_alpha) (framed p ?bg ?O)))"
        using c(1) _ _ c(5) [OF og] ab p t
      proof (rule second_pass_fixed)
        show "0 < length ?O" using c(2) pos by simp
        show "0 < width ?O" using c(3) pos by simp
        show "is_bbox (content_mask ?O ?bg t) (0, 0, width ?O, length ?O)"
          using c(4) by (simp add: c(2) c(3))
      qed
      show ?thesis by (simp add: normalize_twice_def 1 2)
    qed
  qed
qed

theorem normalize_idempotent_opaque_witness:
  "wf_image (ImRGB [[(255, 255, 255), (0, 0, 0)]]) \<and> opaque (ImRGB [[(255, 255, 255), (0, 0, 0)]]) \<and>
   (0::nat) < 2 \<and> (0::int) \<le> 30 \<and>
   normalize_twice (ImRGB [[(255, 255, 255), (0, 0, 0)]]) 2 30 =
     trim_and_expand_border_to_content (ImRGB [[(255, 255, 255), (0, 0, 0)]]) 2 30"
  using normalize_idempotent_opaque [of "ImRGB [[(255, 255, 255), (0, 0, 0)]]" 2 30]
  by (simp add: rect_def width_def)

lemma strip_first_pass:
  "trim_and_expand_border_to_content
     (ImRGB [[(255, 255, 255), (0, 0, 0), (255, 255, 255), (0, 0, 0)]]) 0 30 =
   Inr (ImRGB [[(0, 0, 0), (255, 255, 255), (0, 0, 0)]])"
  by (simp add: eval_image)

lemma strip_second_pass:
  "trim_and_expand_border_to_content (ImRGB [[(0, 0, 0), (255, 255, 255), (0, 0, 0)]]) 0 30 =
   Inr (ImRGB [[(255, 255, 255)]])"
  by (simp add: eval_image)

lemma alpha_first_pass:
  "trim_and_expand_border_to_content
     (ImRGBA [[(255, 255, 255, 255), (0, 0, 0, 0), (0, 0, 0, 255)]]) (Suc 0) 30 =
   Inr (ImRGB [[(255, 255, 255), (255, 255, 255), (255, 255, 255), (255, 255, 255)],
               [(255, 255, 255), (255, 255, 255), (0, 0, 0), (255, 255, 255)],
               [(255, 255, 255), (255, 255, 255), (255, 255, 255), (255, 255, 255)]])"
  by (simp add: eval_image)

lemma alpha_second_pass:
  "trim_and_expand_border_to_content
     (ImRGB [[(255, 255, 255), (255, 255, 255), (255, 255, 255), (255, 255, 255)],
             [(255, 255, 255), (255, 255, 255), (0, 0, 0), (255, 255, 255)],
             [(255, 255, 255), (255, 255, 255), (255, 255, 255), (255, 255, 255)]]) (Suc 0) 30 =
   Inr (ImRGB [[(255, 255, 255), (255, 255, 255), (255, 255, 255)],
               [(255, 255, 255), (0, 0, 0), (255, 255, 255)],
               [(255, 255, 255), (255, 255, 255), (255, 255, 255)]])"
  by (simp add: eval_image)

text \<open>
  Claim C1 as stated fails. With padding 0 the pixel at \<open>(0, 0)\<close> of the result is a
  content pixel, and the second pass takes another background colour: the strip white,
  black, white, black becomes black, white, black and then a single white pixel. With a
  transparent foreground pixel the paste leaves the background colour there, and the
  second pass finds a smaller box.
\<close>

theorem normalize_not_idempotent:
  "trim_and_expand_border_to_content
       (ImRGB [[(255, 255, 255), (0, 0, 0), (255, 255, 255), (0, 0, 0)]]) 0 30 =
     Inr (ImRGB [[(0, 0, 0), (255, 255, 255), (0, 0, 0)]]) \<and>
   normalize_twice (ImRGB [[(255, 255, 255), (0, 0, 0), (255, 255, 255), (0, 0, 0)]]) 0 30 =
     Inr (ImRGB [[(255, 255, 255)]]) \<and>
   normalize_twice (ImRGB [[(255, 255, 255), (0, 0, 0), (255, 255, 255), (0, 0, 0)]]) 0 30 \<noteq>
     trim_and_expand_border_to_content
       (ImRGB [[(255, 255, 255), (0, 0, 0), (255, 255, 255), (0, 0, 0)]]) 0 30 \<and>
   normalize_twice (ImRGBA [[(255, 255, 255, 255), (0, 0, 0, 0), (0, 0, 0, 255)]]) 1 30 \<noteq>
     trim_and_expand_border_to_content
       (ImRGBA [[(255, 255, 255, 255), (0, 0, 0, 0), (0, 0, 0, 255)]]) 1 30"
  by (simp add: normalize_twice_def strip_first_pass strip_second_pass
      alpha_first_pass alpha_second_pass)

lemma centered_rect_length [simp]: "length (centered_rect W H M B F) = H + 2 * M"
  by (simp add: centered_rect_def)

lemma centered_rect_nth_length [simp]:
  "y < H + 2 * M \<Longrightarrow> length (centered_rect W H M B F ! y) = W + 2 * M"
  by (simp add: centered_rect_def)

lemma centered_rect_nth:
  "y < H + 2 * M \<Longrightarrow> x < W + 2 * M \<Longrightarrow>
   centered_rect W H M B F ! y ! x =
     (if M \<le> x \<and> x < M + W \<and> M \<le> y \<and> y < M + H then F else B)"
  by (simp add: centered_rect_def)

lemma centered_rect_rect [simp]: "rect (centered_rect W H M B F)"
  by (rule rectI [where w = "W + 2 * M"]) simp

lemma centered_rect_width: "0 < H + 2 * M \<Longrightarrow> width (centered_rect W H M B F) = W + 2 * M"
  by (simp add: width_nth0 [of "centered_rect W H M B F"])

lemma centered_content:
  assumes wf: "wf_image img"
    and sz: "size_of (convert_RGBA img) = (W + 2 * M, H + 2 * M)"
    and pos: "0 < W" "0 < H" "0 < M"
    and cl: "\<forall>y < H + 2 * M. \<forall>x < W + 2 * M.
       (t < int (luma_distance (convert_RGBA img ! y ! x) (convert_RGBA img ! 0 ! 0))) =
       (M \<le> x \<and> x < M + W \<and> M \<le> y \<and> y < M + H)"
  shows "trim_and_expand_border_to_content img P t =
           Inr (ImRGB (map (map drop_alpha)
             (framed P (convert_RGBA img ! 0 ! 0) (crop (convert_RGBA img) (M, M, M + W, M + H)))))"
    and "rect (crop (convert_RGBA img) (M, M, M + W, M + H))"
    and "length (crop (convert_RGBA img) (M, M, M + W, M + H)) = H"
    and "width (crop (convert_RGBA img) (M, M, M + W, M + H)) = W"
proof -
  let ?G = "convert_RGBA img"
  have r: "rect ?G" using wf by (rule rect_convert_RGBA)
  have l: "length ?G = H + 2 * M" and w: "width ?G = W + 2 * M"
    using sz by (simp_all add: size_of_def height_def)
  have gp: "getpixel ?G (0, 0) = Inr (?G ! 0 ! 0)"
    using r l w pos by (intro getpixel_origin) simp_all
  have nz: "nonzero_at (content_mask ?G (?G ! 0 ! 0) t) x y \<longleftrightarrow>
            M \<le> x \<and> x < M + W \<and> M \<le> y \<and> y < M + H" for x y
    using cl l w by (auto simp: nonzero_content_mask [OF r])
  have "is_bbox (content_mask ?G (?G ! 0 ! 0) t) (M, M, M + W, M + H)"
    unfolding is_bbox_def using pos l w r
    by (auto simp: nz intro: exI [of _ M])
  then have bb: "is_bbox (content_mask ?G (?G ! 0 ! 0) t) (M, M, M + W, M + H)" .
  have gb: "getbbox (content_mask ?G (?G ! 0 ! 0) t) = Some (M, M, M + W, M + H)"
    using r bb by (intro is_bbox_getbbox) simp_all
  show "trim_and_expand_border_to_content img P t =
           Inr (ImRGB (map (map drop_alpha) (framed P (?G ! 0 ! 0) (crop ?G (M, M, M + W, M + H)))))"
    using gp gb by (rule normalize_of_box)
  note c = crop_of_bbox [OF r bb]
  show "rect (crop ?G (M, M, M + W, M + H))" by (rule c(1))
  show "length (crop ?G (M, M, M + W, M + H)) = H" using c(2) by simp
  show "width (crop ?G (M, M, M + W, M + H)) = W" using c(3) by simp
qed


text \<open>
  Claim C3, amended. Let the image have size \<open>(W + 2M, H + 2M)\<close> with \<open>W, H \<ge> 1\<close> and a
  margin \<open>M \<ge> 1\<close>, and let the tolerance separate the rectangle from the margin: the
  pixels whose luma distance to the pixel at \<open>(0, 0)\<close> exceeds it are exactly those of
  the centred \<open>W\<close> by \<open>H\<close> rectangle. Then the normalizer with padding \<open>P\<close> returns
  an \<open>RGB\<close> image of size \<open>(W + 2P, H + 2P)\<close> that holds the opaque pixels of the
  rectangle at offset \<open>(P, P)\<close> and the background colour around it. The
  instance of 40 by 40 pixels with a 10 by 10 square, tolerance 30 and padding 5 gives a
  20 by 20 image with the square at \<open>(5, 5)\<close>.
\<close>

theorem centered_rectangle_normalized:
  assumes wf: "wf_image img"
    and sz: "size_of (convert_RGBA img) = (W + 2 * M, H + 2 * M)"
    and pos: "0 < W" "0 < H" "0 < M"
    and cl: "\<forall>y < H + 2 * M. \<forall>x < W + 2 * M.
       (t < int (luma_distance (convert_RGBA img ! y ! x) (convert_RGBA img ! 0 ! 0))) =
       (M \<le> x \<and> x < M + W \<and> M \<le> y \<and> y < M + H)"
  shows "\<exists>out. trim_and_expand_border_to_content img P t = Inr (ImRGB out) \<and>
           rect out \<and> size_of out = (W + 2 * P, H + 2 * P) \<and>
           (\<forall>j < H. \<forall>i < W.
              alpha_of (convert_RGBA img ! (M + j) ! (M + i)) = 255 \<longrightarrow>
              out ! (P + j) ! (P + i) = drop_alpha (convert_RGBA img ! (M + j) ! (M + i))) \<and>
           (\<forall>y < H + 2 * P. \<forall>x < W + 2 * P.
              \<not> (P \<le> x \<and> x < P + W \<and> P \<le> y \<and> y < P + H) \<longrightarrow>
              out ! y ! x = drop_alpha (convert_RGBA img ! 0 ! 0))"
proof -
  let ?G = "convert_RGBA img"
  let ?O = "crop ?G (M, M, M + W, M + H)"
  let ?out = "map (map drop_alpha) (framed P (?G ! 0 ! 0) ?O)"
  note c = centered_content [OF wf sz pos cl]
  have r: "rect ?G" using wf by (rule rect_convert_RGBA)
  have l: "length ?G = H + 2 * M" and w: "width ?G = W + 2 * M"
    using sz by (simp_all add: size_of_def height_def)
  have 1: "trim_and_expand_border_to_content img P t = Inr (ImRGB ?out)" by (rule c(1))
  have 2: "rect ?out" by simp
  have 3: "size_of ?out = (W + 2 * P, H + 2 * P)"
    using c(3) c(4) pos by (simp add: size_of_def height_def framed_width)
  have fr: "framed P (?G ! 0 ! 0) ?O ! y ! x =
        (if P \<le> y \<and> y < P + H \<and> P \<le> x \<and> x < P + W
         then blend_pixel (alpha_of (?O ! (y - P) ! (x - P))) (?G ! 0 ! 0) (?O ! (y - P) ! (x - P))
         else ?G ! 0 ! 0)"
    if "y < H + 2 * P" "x < W + 2 * P" for y x
    using framed_nth [OF c(2), of y P x "?G ! 0 ! 0"] that c(3) c(4) by simp
  have 4: "?out ! (P + j) ! (P + i) = drop_alpha (?G ! (M + j) ! (M + i))"
    if ji: "j < H" "i < W" and a: "alpha_of (?G ! (M + j) ! (M + i)) = 255" for j i
  proof -
    have "j < M + H - M" "i < M + W - M" using ji by simp_all
    then have o: "?O ! j ! i = ?G ! (M + j) ! (M + i)"
      using r l w by (intro crop_nth) simp_all
    have "?out ! (P + j) ! (P + i) = drop_alpha (framed P (?G ! 0 ! 0) ?O ! (P + j) ! (P + i))"
      using ji c(3) c(4) by simp
    also have "framed P (?G ! 0 ! 0) ?O ! (P + j) ! (P + i) = ?G ! (M + j) ! (M + i)"
      using fr [of "P + j" "P + i"] ji o a by (simp add: blend_pixel_opaque)
    finally show ?thesis .
  qed
  have 5: "?out ! y ! x = drop_alpha (?G ! 0 ! 0)"
    if yx: "y < H + 2 * P" "x < W + 2 * P"
      and out: "\<not> (P \<le> x \<and> x < P + W \<and> P \<le> y \<and> y < P + H)" for y x
  proof -
    have "?out ! y ! x = drop_alpha (framed P (?G ! 0 ! 0) ?O ! y ! x)"
      using yx c(3) c(4) by simp
    also have "framed P (?G ! 0 ! 0) ?O ! y ! x = ?G ! 0 ! 0"
      using fr [OF yx] out by auto
    finally show ?thesis .
  qed
  from 1 2 3 4 5 show ?thesis by blast
qed

lemma size_of_rows:
  assumes "rect g" "size_of g = (w, h)"
  shows "length g = h" and "y < h \<Longrightarrow> length (g ! y) = w"
  using assms by (simp_all add: size_of_def height_def rect_nth_length)

theorem centered_rectangle_normalized_witness:
  "wf_image (ImRGB (centered_rect 10 10 15 (255, 255, 255) (0, 0, 0))) \<and>
   size_of (convert_RGBA (ImRGB (centered_rect 10 10 15 (255, 255, 255) (0, 0, 0)))) = (40, 40) \<and>
   trim_and_expand_border_to_content
     (ImRGB (centered_rect 10 10 15 (255, 255, 255) (0, 0, 0))) 5 30 =
     Inr (ImRGB (centered_rect 10 10 5 (255, 255, 255) (0, 0, 0))) \<and>
   size_of (centered_rect 10 10 5 (255, 255, 255) (0, 0, 0) :: rgb grid) = (20, 20)"
proof -
  let ?A = "centered_rect 10 10 15 (255, 255, 255) (0, 0, 0) :: rgb grid"
  let ?B = "centered_rect 10 10 5 (255, 255, 255) (0, 0, 0) :: rgb grid"
  let ?G = "convert_RGBA (ImRGB ?A)"
  have G: "?G ! y ! x =
      (if 15 \<le> x \<and> x < 25 \<and> 15 \<le> y \<and> y < 25 then (0, 0, 0, 255) else (255, 255, 255, 255))"
    if "y < 40" "x < 40" for y x
    using that by (simp add: centered_rect_nth)
  have wf: "wf_image (ImRGB ?A)" by simp
  have sz: "size_of ?G = (10 + 2 * 15, 10 + 2 * 15)"
    by (simp add: size_of_def height_def centered_rect_width)
  have d: "luma_distance (0, 0, 0, 255) (255, 255, 255, 255) = 255"
    by (simp add: luma_distance_def pixel_difference_def chan_diff_def rgb2l_def)
  have cl: "\<forall>y < 10 + 2 * 15. \<forall>x < 10 + 2 * 15.
       (30 < int (luma_distance (?G ! y ! x) (?G ! 0 ! 0))) =
       (15 \<le> x \<and> x < 15 + 10 \<and> 15 \<le> y \<and> y < 15 + 10)"
  proof (intro allI impI)
    fix y x :: nat assume "y < 10 + 2 * 15" "x < 10 + 2 * 15"
    then have "y < 40" "x < 40" by simp_all
    from G [OF this] G [of 0 0] show
      "(30 < int (luma_distance (?G ! y ! x) (?G ! 0 ! 0))) =
       (15 \<le> x \<and> x < 15 + 10 \<and> 15 \<le> y \<and> y < 15 + 10)"
      by (simp add: d)
  qed
  from centered_rectangle_normalized [OF wf sz _ _ _ cl, of 5]
  obtain out where res: "trim_and_expand_border_to_content (ImRGB ?A) 5 30 = Inr (ImRGB out)"
    and ro: "rect out" and so: "size_of out = (10 + 2 * 5, 10 + 2 * 5)"
    and inner: "\<forall>j < 10. \<forall>i < 10.
              alpha_of (?G ! (15 + j) ! (15 + i)) = 255 \<longrightarrow>
              out ! (5 + j) ! (5 + i) = drop_alpha (?G ! (15 + j) ! (15 + i))"
    and outer: "\<forall>y < 10 + 2 * 5. \<forall>x < 10 + 2 * 5.
              \<not> (5 \<le> x \<and> x < 5 + 10 \<and> 5 \<le> y \<and> y < 5 + 10) \<longrightarrow>
              out ! y ! x = drop_alpha (?G ! 0 ! 0)"
    by auto
  note rows = size_of_rows [OF ro so]
  have "out = ?B"
  proof (rule grid_eqI)
    show "length out = length ?B" using rows(1) by simp
  next
    fix y assume "y < length ?B"
    then show "length (out ! y) = length (?B ! y)" using rows(2) [of y] by simp
  next
    fix y x assume "y < length ?B" "x < length (?B ! y)"
    then have yx: "y < 20" "x < 20" by simp_all
    show "out ! y ! x = ?B ! y ! x"
    proof (cases "5 \<le> x \<and> x < 15 \<and> 5 \<le> y \<and> y < 15")
      case True
      then have ji: "y - 5 < 10" "x - 5 < 10" "5 + (y - 5) = y" "5 + (x - 5) = x" by auto
      have g: "?G ! (15 + (y - 5)) ! (15 + (x - 5)) = (0, 0, 0, 255)"
        using True by (subst G) auto
      from inner ji(1,2) have "alpha_of (?G ! (15 + (y - 5)) ! (15 + (x - 5))) = 255 \<longrightarrow>
          out ! (5 + (y - 5)) ! (5 + (x - 5)) = drop_alpha (?G ! (15 + (y - 5)) ! (15 + (x - 5)))"
        by blast
      then have "out ! y ! x = (0, 0, 0)"
        unfolding g ji(3,4) by (simp add: alpha_of_def drop_alpha_def)
      then show ?thesis
        using yx True by (simp add: centered_rect_nth)
    next
      case False
      then show ?thesis
        using outer yx G [of 0 0]
        by (auto simp: centered_rect_nth drop_alpha_def)
    qed
  qed
  then show ?thesis
    using wf sz res by (simp add: size_of_def height_def centered_rect_width)
qed

text \<open>
  Claim C3 as stated fails for the margin \<open>M = 0\<close>: the pixel at \<open>(0, 0)\<close> is then a
  pixel of the rectangle, the whole image counts as background, and the image comes back
  with its own size instead of \<open>(W + 2P, H + 2P)\<close>.
\<close>

theorem rectangle_without_margin_not_padded:
  "(30::int) < int (luma_distance (0, 0, 0, 255) (255, 255, 255, 255)) \<and>
   trim_and_expand_border_to_content (ImRGB (centered_rect 1 1 0 (255, 255, 255) (0, 0, 0))) 5 30 =
     Inr (ImRGBA [[(0, 0, 0, 255)]]) \<and>
   image_size (ImRGBA [[(0, 0, 0, 255)]]) = (1, 1) \<and>
   image_size (ImRGBA [[(0, 0, 0, 255)]]) \<noteq> (1 + 2 * 5, 1 + 2 * 5)"
  by (simp add: centered_rect_def eval_image luma_distance_def)

subsection \<open>The change detector and the clipboard bridge\<close>

lemma convert_RGB_idem [simp]: "convert_RGB (ImRGB (convert_RGB a)) = convert_RGB a"
  by simp

lemma convert_RGB_of_RGBA: "map (map drop_alpha) (convert_RGBA a) = convert_RGB a"
  by (cases a) (simp_all add: drop_alpha_def comp_def case_prod_unfold)

text \<open>
  Claim C5. The fingerprint is a function of the image alone, so equal images have equal
  fingerprints. It is the digest of the bytes of the image converted to \<open>RGB\<close>: two
  images with the same \<open>RGB\<close> bytes have the same fingerprint, and an image carried
  in \<open>RGB\<close> or in \<open>RGBA\<close> mode has the fingerprint of the original.
\<close>

theorem fingerprint_of_canonical_bytes:
  "(tobytes (convert_RGB a) = tobytes (convert_RGB b) \<longrightarrow>
      get_image_hash md5 a = get_image_hash md5 b) \<and>
   get_image_hash md5 (ImRGB (convert_RGB a)) = get_image_hash md5 a \<and>
   get_image_hash md5 (ImRGBA (convert_RGBA a)) = get_image_hash md5 a"
  by (simp add: get_image_hash_def convert_RGB_of_RGBA)

theorem fingerprint_of_canonical_bytes_witness:
  "tobytes (convert_RGB (ImRGBA [[(1, 2, 3, 77), (4, 5, 6, 0)]])) =
     tobytes (convert_RGB (ImRGB [[(1, 2, 3)], [(4, 5, 6)]])) \<and>
   get_image_hash spell_digest (ImRGBA [[(1, 2, 3, 77), (4, 5, 6, 0)]]) =
     get_image_hash spell_digest (ImRGB [[(1, 2, 3)], [(4, 5, 6)]])"
  using fingerprint_of_canonical_bytes
    [of "ImRGBA [[(1, 2, 3, 77), (4, 5, 6, 0)]]" "ImRGB [[(1, 2, 3)], [(4, 5, 6)]]" spell_digest]
  by (simp add: tobytes_def drop_alpha_def)


text \<open>
  Claim C8, amended. When a write fails, the clipboard holds its previous content if the
  failure came before the clipboard was emptied (encoding, \<open>OpenClipboard\<close>,
  \<open>EmptyClipboard\<close>), nothing if \<open>SetClipboardData\<close> failed, and the whole new
  image if only \<open>CloseClipboard\<close> failed; a clipboard that was opened is closed again
  when \<open>EmptyClipboard\<close> or \<open>SetClipboardData\<close> fails.
\<close>

theorem failed_write_outcome:
  assumes "fst (send_image_to_clipboard fault img cb) = Inl e"
  shows "content (snd (send_image_to_clipboard fault img cb)) =
           (if fault \<in> {Some Encode, Some OpenClipboard, Some EmptyClipboard} then content cb
            else if fault = Some SetClipboardData then ClipEmpty
            else ClipImage (ImRGB (convert_RGB img))) \<and>
         (fault \<in> {Some EmptyClipboard, Some SetClipboardData} \<longrightarrow>
            \<not> is_open (snd (send_image_to_clipboard fault img cb)))"
  using assms by (auto simp: send_image_to_clipboard_def Let_def split: if_splits)

theorem failed_write_outcome_witness:
  "fst (send_image_to_clipboard (Some EmptyClipboard) (ImRGB [[(0, 0, 0)]])
          \<lparr>content = ClipImage (ImRGB [[(255, 255, 255)]]), is_open = False\<rparr>) =
     Inl ClipboardError \<and>
   content (snd (send_image_to_clipboard (Some EmptyClipboard) (ImRGB [[(0, 0, 0)]])
          \<lparr>content = ClipImage (ImRGB [[(255, 255, 255)]]), is_open = False\<rparr>)) =
     ClipImage (ImRGB [[(255, 255, 255)]])"
  using failed_write_outcome [of "Some EmptyClipboard" "ImRGB [[(0, 0, 0)]]"
      "\<lparr>content = ClipImage (ImRGB [[(255, 255, 255)]]), is_open = False\<rparr>" ClipboardError]
  by (simp add: send_image_to_clipboard_def)

text \<open>
  Claim C8 as stated fails: when \<open>SetClipboardData\<close> raises, the clipboard has already
  been emptied, and the image that was on it is gone.
\<close>

theorem failed_write_loses_previous_image:
  "fst (send_image_to_clipboard (Some SetClipboardData) (ImRGB [[(0, 0, 0)]])
          \<lparr>content = ClipImage (ImRGB [[(255, 255, 255)]]), is_open = False\<rparr>) =
     Inl ClipboardError \<and>
   content (snd (send_image_to_clipboard (Some SetClipboardData) (ImRGB [[(0, 0, 0)]])
          \<lparr>content = ClipImage (ImRGB [[(255, 255, 255)]]), is_open = False\<rparr>)) =
     ClipEmpty"
  by (simp add: send_image_to_clipboard_def)

text \<open>
  Claim C10. An iteration that raises, wherever it does (reading the clipboard, the
  normalizer, a step of the write), leaves \<open>last_image_hash\<close> as it was at the start of
  the iteration.
\<close>

theorem raising_iteration_keeps_last_hash:
  assumes "fst (main_iteration md5 p t env s) = Raised e"
  shows "last_image_hash (snd (main_iteration md5 p t env s)) = last_image_hash s"
  using assms
  by (auto simp: main_iteration_def Let_def split: if_splits option.splits sum.splits prod.splits)

theorem raising_iteration_keeps_last_hash_witness:
  "fst (main_iteration spell_digest 10 30 no_faults
          \<lparr>clip = \<lparr>content = ClipImage (ImRGB []), is_open = False\<rparr>,
           last_image_hash = Some ''x'', write_calls = []\<rparr>) = Raised IndexError \<and>
   last_image_hash (snd (main_iteration spell_digest 10 30 no_faults
          \<lparr>clip = \<lparr>content = ClipImage (ImRGB []), is_open = False\<rparr>,
           last_image_hash = Some ''x'', write_calls = []\<rparr>)) = Some ''x''"
  using raising_iteration_keeps_last_hash [of spell_digest 10 30 no_faults
      "\<lparr>clip = \<lparr>content = ClipImage (ImRGB []), is_open = False\<rparr>,
        last_image_hash = Some ''x'', write_calls = []\<rparr>" IndexError]
  by (simp add: main_iteration_def no_faults_def get_image_hash_def tobytes_def spell_digest_def
      trim_and_expand_border_to_content_def getpixel_def)

subsection \<open>The monitor loop\<close>

lemma send_no_fault:
  "send_image_to_clipboard None img cb =
     (Inr (), cb\<lparr>content := ClipImage (ImRGB (convert_RGB img)), is_open := False\<rparr>)"
  by (simp add: send_image_to_clipboard_def)

lemma poll_seen:
  "content (clip s) = ClipImage img \<Longrightarrow> last_image_hash s = Some (get_image_hash md5 img) \<Longrightarrow>
   main_iteration md5 p t env s = ((if grab_fails env then Raised ClipboardError else Completed), s)"
  by (simp add: main_iteration_def)

lemma poll_new_written:
  assumes "content (clip s) = ClipImage A" "last_image_hash s \<noteq> Some (get_image_hash md5 A)"
    "trim_and_expand_border_to_content A p t = Inr P" "get_image_hash md5 P \<noteq> get_image_hash md5 A"
  shows "poll md5 p t s =
     s\<lparr>clip := (clip s)\<lparr>content := ClipImage (ImRGB (convert_RGB P)), is_open := False\<rparr>,
       last_image_hash := Some (get_image_hash md5 P),
       write_calls := write_calls s @ [P]\<rparr>"
  using assms
  by (auto simp: poll_def main_iteration_def no_faults_def send_no_fault Let_def)

lemma poll_new_canonical:
  assumes "content (clip s) = ClipImage A" "last_image_hash s \<noteq> Some (get_image_hash md5 A)"
    "trim_and_expand_border_to_content A p t = Inr P" "get_image_hash md5 P = get_image_hash md5 A"
  shows "poll md5 p t s = s\<lparr>last_image_hash := Some (get_image_hash md5 A)\<rparr>"
  using assms
  by (auto simp: poll_def main_iteration_def no_faults_def Let_def)

lemma poll_new_raises:
  assumes "content (clip s) = ClipImage A" "trim_and_expand_border_to_content A p t = Inl e"
  shows "poll md5 p t s = s"
  using assms
  by (auto simp: poll_def main_iteration_def no_faults_def Let_def)

lemma poll_empty_text:
  assumes "content (clip s) = ClipText [] \<or> content (clip s) = ClipEmpty"
  shows "poll md5 p t s = s\<lparr>last_image_hash := None\<rparr>"
  using assms
  by (auto simp: poll_def main_iteration_def no_faults_def Let_def)

lemma hash_of_written [simp]:
  "get_image_hash md5 (ImRGB (convert_RGB P)) = get_image_hash md5 P"
  by (simp add: get_image_hash_def)

text \<open>
  Claim C6, amended. An iteration that finds on the clipboard an image whose fingerprint
  is \<open>last_image_hash\<close> changes nothing: no write, same state. When an image \<open>A\<close>
  is on the clipboard and nothing else touches the clipboard, the second poll is a no-op,
  and the two polls make at most one write: one when \<open>A\<close> is new, the normalizer returns
  and its result has another fingerprint than \<open>A\<close>, none otherwise.
\<close>

theorem seen_image_is_not_written_again:
  assumes "content (clip s0) = ClipImage A"
  shows "(\<forall>env s img. content (clip s) = ClipImage img \<and>
            last_image_hash s = Some (get_image_hash md5 img) \<longrightarrow>
            snd (main_iteration md5 p t env s) = s) \<and>
         poll md5 p t (poll md5 p t s0) = poll md5 p t s0 \<and>
         write_calls (poll md5 p t (poll md5 p t s0)) = write_calls s0 @
           (case trim_and_expand_border_to_content A p t of
              Inl e \<Rightarrow> []
            | Inr P \<Rightarrow>
                if last_image_hash s0 \<noteq> Some (get_image_hash md5 A) \<and>
                   get_image_hash md5 P \<noteq> get_image_hash md5 A
                then [P] else [])"
proof -
  have 1: "\<forall>env s img. content (clip s) = ClipImage img \<and>
            last_image_hash s = Some (get_image_hash md5 img) \<longrightarrow>
            snd (main_iteration md5 p t env s) = s"
    by (simp add: poll_seen)
  have seen: "poll md5 p t s = s"
    if "content (clip s) = ClipImage img" "last_image_hash s = Some (get_image_hash md5 img)"
    for s img
    using that by (simp add: poll_def poll_seen)
  show ?thesis
  proof (cases "trim_and_expand_border_to_content A p t")
    case (Inl e)
    then show ?thesis using 1 assms by (simp add: poll_new_raises)
  next
    case (Inr P)
    show ?thesis
    proof (cases "last_image_hash s0 = Some (get_image_hash md5 A)")
      case True
      then show ?thesis using 1 assms Inr by (simp add: seen)
    next
      case new: False
      show ?thesis
      proof (cases "get_image_hash md5 P = get_image_hash md5 A")
        case True
        have "poll md5 p t s0 = s0\<lparr>last_image_hash := Some (get_image_hash md5 A)\<rparr>"
          using assms new Inr True by (rule poll_new_canonical)
        moreover have "poll md5 p t (s0\<lparr>last_image_hash := Some (get_image_hash md5 A)\<rparr>) =
            s0\<lparr>last_image_hash := Some (get_image_hash md5 A)\<rparr>"
          using assms by (intro seen [of _ A]) simp_all
        ultimately show ?thesis using 1 Inr True by simp
      next
        case False
        let ?s1 = "s0\<lparr>clip := (clip s0)\<lparr>content := ClipImage (ImRGB (convert_RGB P)), is_open := False\<rparr>,
           last_image_hash := Some (get_image_hash md5 P),
           write_calls := write_calls s0 @ [P]\<rparr>"
        have "poll md5 p t s0 = ?s1"
          using assms new Inr False by (rule poll_new_written)
        moreover have "poll md5 p t ?s1 = ?s1"
          by (intro seen [of _ "ImRGB (convert_RGB P)"]) simp_all
        ultimately show ?thesis using 1 Inr False new by simp
      qed
    qed
  qed
qed

text \<open>
  Claim C7. An iteration that reads an empty text from the clipboard sets
  \<open>last_image_hash\<close> to \<open>None\<close>. So when an image \<open>A\<close> has been processed and
  written, the clipboard is then cleared to the empty text, and \<open>A\<close> is copied again,
  the third poll processes \<open>A\<close> and writes the result a second time.
\<close>

theorem empty_text_resets_last_hash:
  assumes "trim_and_expand_border_to_content A p t = Inr P"
    and "get_image_hash md5 P \<noteq> get_image_hash md5 A"
    and "content (clip s0) = ClipImage A"
    and "last_image_hash s0 \<noteq> Some (get_image_hash md5 A)"
  shows "(\<forall>env s. \<not> grab_fails env \<and> \<not> paste_fails env \<and>
             (content (clip s) = ClipText [] \<or> content (clip s) = ClipEmpty) \<longrightarrow>
             main_iteration md5 p t env s = (Completed, s\<lparr>last_image_hash := None\<rparr>)) \<and>
         (let s1 = poll md5 p t s0;
              s2 = poll md5 p t (user_copies (ClipText []) s1);
              s3 = poll md5 p t (user_copies (ClipImage A) s2)
          in write_calls s1 = write_calls s0 @ [P] \<and>
             last_image_hash s1 = Some (get_image_hash md5 P) \<and>
             write_calls s2 = write_calls s1 \<and>
             last_image_hash s2 = None \<and>
             write_calls s3 = write_calls s0 @ [P, P] \<and>
             last_image_hash s3 = Some (get_image_hash md5 P) \<and>
             content (clip s3) = ClipImage (ImRGB (convert_RGB P)))"
proof -
  have 1: "\<forall>env s. \<not> grab_fails env \<and> \<not> paste_fails env \<and>
             (content (clip s) = ClipText [] \<or> content (clip s) = ClipEmpty) \<longrightarrow>
             main_iteration md5 p t env s = (Completed, s\<lparr>last_image_hash := None\<rparr>)"
    by (auto simp: main_iteration_def)
  let ?s1 = "s0\<lparr>clip := (clip s0)\<lparr>content := ClipImage (ImRGB (convert_RGB P)), is_open := False\<rparr>,
           last_image_hash := Some (get_image_hash md5 P),
           write_calls := write_calls s0 @ [P]\<rparr>"
  have s1: "poll md5 p t s0 = ?s1"
    using assms(3,4,1,2) by (rule poll_new_written)
  let ?s2 = "(user_copies (ClipText []) ?s1)\<lparr>last_image_hash := None\<rparr>"
  have s2: "poll md5 p t (user_copies (ClipText []) ?s1) = ?s2"
    by (rule poll_empty_text) (simp add: user_copies_def)
  have s3: "poll md5 p t (user_copies (ClipImage A) ?s2) =
      (user_copies (ClipImage A) ?s2)
        \<lparr>clip := (clip (user_copies (ClipImage A) ?s2))
             \<lparr>content := ClipImage (ImRGB (convert_RGB P)), is_open := False\<rparr>,
         last_image_hash := Some (get_image_hash md5 P),
         write_calls := write_calls (user_copies (ClipImage A) ?s2) @ [P]\<rparr>"
    using assms(1,2) by (intro poll_new_written) (simp_all add: user_copies_def)
  show ?thesis
    unfolding Let_def s1 s2 s3 using 1 by (simp add: user_copies_def)
qed


lemma normalize_single_pixel:
  "trim_and_expand_border_to_content (ImRGB [[(255, 255, 255)]]) 10 30 =
     Inr (ImRGBA [[(255, 255, 255, 255)]])"
  by (simp add: eval_image)

theorem seen_image_is_not_written_again_witness:
  "content (clip \<lparr>clip = \<lparr>content = ClipImage (ImRGB [[(255, 255, 255), (0, 0, 0)]]),
                          is_open = False\<rparr>,
                  last_image_hash = None, write_calls = []\<rparr>) =
     ClipImage (ImRGB [[(255, 255, 255), (0, 0, 0)]]) \<and>
   write_calls (poll spell_digest 0 30 (poll spell_digest 0 30
      \<lparr>clip = \<lparr>content = ClipImage (ImRGB [[(255, 255, 255), (0, 0, 0)]]), is_open = False\<rparr>,
       last_image_hash = None, write_calls = []\<rparr>)) =
     [ImRGB [[(0, 0, 0)]]]"
proof -
  let ?s = "\<lparr>clip = \<lparr>content = ClipImage (ImRGB [[(255, 255, 255), (0, 0, 0)]]), is_open = False\<rparr>,
             last_image_hash = None, write_calls = []\<rparr>"
  have h: "content (clip ?s) = ClipImage (ImRGB [[(255, 255, 255), (0, 0, 0)]])"
    by simp
  from seen_image_is_not_written_again [OF h, of spell_digest 0 30]
  have "write_calls (poll spell_digest 0 30 (poll spell_digest 0 30 ?s)) = write_calls ?s @
           (case trim_and_expand_border_to_content (ImRGB [[(255, 255, 255), (0, 0, 0)]]) 0 30 of
              Inl e \<Rightarrow> []
            | Inr P \<Rightarrow>
                if last_image_hash ?s \<noteq>
                     Some (get_image_hash spell_digest (ImRGB [[(255, 255, 255), (0, 0, 0)]])) \<and>
                   get_image_hash spell_digest P \<noteq>
                     get_image_hash spell_digest (ImRGB [[(255, 255, 255), (0, 0, 0)]])
                then [P] else [])"
    by blast
  then show ?thesis
    by (simp add: normalize_strip_no_padding get_image_hash_def tobytes_def spell_digest_def)
qed

text \<open>
  Claim C6 as stated fails: for an image the normalizer leaves as it is (here one white
  pixel), the two polls make no write at all, not exactly one.
\<close>

theorem canonical_image_is_never_written:
  "write_calls (poll spell_digest 10 30 (poll spell_digest 10 30
      \<lparr>clip = \<lparr>content = ClipImage (ImRGB [[(255, 255, 255)]]), is_open = False\<rparr>,
       last_image_hash = None, write_calls = []\<rparr>)) = [] \<and>
   length (write_calls (poll spell_digest 10 30 (poll spell_digest 10 30
      \<lparr>clip = \<lparr>content = ClipImage (ImRGB [[(255, 255, 255)]]), is_open = False\<rparr>,
       last_image_hash = None, write_calls = []\<rparr>))) \<noteq> 1"
  by (simp add: poll_def main_iteration_def no_faults_def normalize_single_pixel
      get_image_hash_def tobytes_def drop_alpha_def)

theorem empty_text_resets_last_hash_witness:
  "trim_and_expand_border_to_content (ImRGB [[(255, 255, 255), (0, 0, 0)]]) 0 30 =
     Inr (ImRGB [[(0, 0, 0)]]) \<and>
   get_image_hash spell_digest (ImRGB [[(0, 0, 0)]]) \<noteq>
     get_image_hash spell_digest (ImRGB [[(255, 255, 255), (0, 0, 0)]]) \<and>
   write_calls (poll spell_digest 0 30 (user_copies (ClipImage (ImRGB [[(255, 255, 255), (0, 0, 0)]]))
     (poll spell_digest 0 30 (user_copies (ClipText [])
       (poll spell_digest 0 30
          \<lparr>clip = \<lparr>content = ClipImage (ImRGB [[(255, 255, 255), (0, 0, 0)]]), is_open = False\<rparr>,
           last_image_hash = None, write_calls = []\<rparr>))))) =
     [ImRGB [[(0, 0, 0)]], ImRGB [[(0, 0, 0)]]]"
  using empty_text_resets_last_hash [of "ImRGB [[(255, 255, 255), (0, 0, 0)]]" 0 30
      "ImRGB [[(0, 0, 0)]]" spell_digest
      "\<lparr>clip = \<lparr>content = ClipImage (ImRGB [[(255, 255, 255), (0, 0, 0)]]), is_open = False\<rparr>,
        last_image_hash = None, write_calls = []\<rparr>"]
  by (simp add: normalize_strip_no_padding get_image_hash_def tobytes_def spell_digest_def Let_def)

end
